theory Spec2Isabelle
  imports Main "HOL-Library.Word" "HOL-Library.AList"
begin

section \<open>Data model\<close>

text \<open>
  A Go \<^verbatim>\<open>string\<close> and a \<^verbatim>\<open>[]byte\<close> are sequences of bytes; a \<^verbatim>\<open>rune\<close> is a
  signed 32-bit integer holding a codepoint. No arithmetic of the package can overflow
  a rune (runes are only looked up, compared and written), so runes are integers here;
  every statement about all integers covers the 32-bit ones.
\<close>

type_synonym byte = "8 word"
type_synonym rune = int
type_synonym gostring = "byte list"

text \<open>
  The two sentinel errors of the package; a returned \<^verbatim>\<open>error\<close> is \<open>None\<close> for
  \<^verbatim>\<open>nil\<close>.
\<close>

datatype error = ErrUnknownEncoding | ErrInvalidCodepoint

text \<open>
  A Go map is an association list with \<open>map_of\<close> as its lookup and \<open>AList.update\<close>
  as its assignment \<^verbatim>\<open>m[k] = v\<close>. The order of the list is the order in which a
  \<^verbatim>\<open>range\<close> loop visits the entries: Go leaves that order unspecified, so a statement
  about a \<^verbatim>\<open>range\<close> loop is made for every order of the list.
\<close>

type_synonym ('k, 'v) gomap = "('k \<times> 'v) list"

text \<open>A string literal of the source, as bytes.\<close>

definition str :: "string \<Rightarrow> gostring" where
  "str s = map of_char s"

section \<open>The standard library: UTF-8 and buffers\<close>

text \<open>
  The package \<^verbatim>\<open>unicode/utf8\<close>. The shifts, masks and ors of the library are written
  as multiplication, \<open>mod\<close> and addition: \<^verbatim>\<open>x & 0x3F\<close> is \<open>x mod 64\<close>,
  \<^verbatim>\<open>x << 6\<close> is \<open>x * 64\<close>, \<^verbatim>\<open>x >> 6\<close> is \<open>x div 64\<close>, and an or of values with
  no common bit is their sum.
\<close>

definition RuneError :: rune where
  "RuneError = 0xFFFD"

definition ValidRune :: "rune \<Rightarrow> bool" where
  "ValidRune r \<longleftrightarrow> (0 \<le> r \<and> r < 0xD800) \<or> (0xDFFF < r \<and> r \<le> 0x10FFFF)"

text \<open>
  \<^verbatim>\<open>utf8.AppendRune(nil, r)\<close>: the bytes of one rune. A rune that is negative, above
  \<^verbatim>\<open>MaxRune\<close> or a surrogate is written as \<^verbatim>\<open>RuneError\<close>.
\<close>

definition encodeRune :: "rune \<Rightarrow> gostring" where
  "encodeRune r =
     (if 0 \<le> r \<and> r \<le> 0x7F then [word_of_int r]
      else if 0 \<le> r \<and> r \<le> 0x7FF then
        [word_of_int (0xC0 + r div 64), word_of_int (0x80 + r mod 64)]
      else if r < 0 \<or> 0x10FFFF < r \<or> (0xD800 \<le> r \<and> r \<le> 0xDFFF) then
        [0xEF, 0xBF, 0xBD]
      else if r \<le> 0xFFFF then
        [word_of_int (0xE0 + r div 4096), word_of_int (0x80 + (r div 64) mod 64),
         word_of_int (0x80 + r mod 64)]
      else
        [word_of_int (0xF0 + r div 262144), word_of_int (0x80 + (r div 4096) mod 64),
         word_of_int (0x80 + (r div 64) mod 64), word_of_int (0x80 + r mod 64)])"

text \<open>
  The range accepted for the second byte of an encoding whose first byte has the value
  \<open>s0\<close> (the library's table \<^verbatim>\<open>acceptRanges\<close>): it excludes the overlong encodings,
  the surrogates and the runes above \<^verbatim>\<open>MaxRune\<close>.
\<close>

definition accept_lo :: "int \<Rightarrow> int" where
  "accept_lo s0 = (if s0 = 0xE0 then 0xA0 else if s0 = 0xF0 then 0x90 else 0x80)"

definition accept_hi :: "int \<Rightarrow> int" where
  "accept_hi s0 = (if s0 = 0xED then 0x9F else if s0 = 0xF4 then 0x8F else 0xBF)"

text \<open>
  \<^verbatim>\<open>utf8.DecodeRuneInString\<close>: the first rune of a string and its width in bytes.
  An empty string gives \<open>(RuneError, 0)\<close>, an invalid encoding \<open>(RuneError, 1)\<close>. The
  first byte fixes the size \<open>sz\<close> of the encoding (the library's table \<^verbatim>\<open>first\<close>).
\<close>

fun DecodeRuneInString :: "gostring \<Rightarrow> rune \<times> nat" where
  "DecodeRuneInString [] = (RuneError, 0)"
| "DecodeRuneInString (b0 # s) =
     (let s0 = uint b0 in
      if s0 < 0x80 then (s0, 1)
      else if s0 < 0xC2 \<or> 0xF4 < s0 then (RuneError, 1)
      else
        (let sz = (if s0 < 0xE0 then 2 else if s0 < 0xF0 then 3 else 4 :: nat) in
         if length (b0 # s) < sz then (RuneError, 1)
         else
           (let s1 = uint (s ! 0) in
            if s1 < accept_lo s0 \<or> accept_hi s0 < s1 then (RuneError, 1)
            else if sz \<le> 2 then (s0 mod 32 * 64 + s1 mod 64, 2)
            else
              (let s2 = uint (s ! 1) in
               if s2 < 0x80 \<or> 0xBF < s2 then (RuneError, 1)
               else if sz \<le> 3 then (s0 mod 16 * 4096 + s1 mod 64 * 64 + s2 mod 64, 3)
               else
                 (let s3 = uint (s ! 2) in
                  if s3 < 0x80 \<or> 0xBF < s3 then (RuneError, 1)
                  else (s0 mod 8 * 262144 + s1 mod 64 * 4096 + s2 mod 64 * 64 + s3 mod 64,
                        4))))))"

text \<open>
  \<^verbatim>\<open>for _, r := range data\<close> over a string: the runes of the string from left to
  right, each with the number of bytes it was read from. An invalid byte is visited as
  \<open>(RuneError, 1)\<close> and the loop goes on with the next byte.
\<close>

function rangeString :: "gostring \<Rightarrow> (rune \<times> nat) list" where
  "rangeString [] = []"
| "rangeString (b # s) =
     DecodeRuneInString (b # s) # rangeString (drop (snd (DecodeRuneInString (b # s))) (b # s))"
  by pat_completeness auto
termination
proof (relation "measure length")
  show "wf (measure length)" by simp
next
  fix b :: byte and s :: gostring
  have "1 \<le> snd (DecodeRuneInString (b # s))"
    by (simp add: Let_def)
  then show "(drop (snd (DecodeRuneInString (b # s))) (b # s), b # s) \<in> measure length"
    by simp
qed


text \<open>
  A \<^verbatim>\<open>bytes.Buffer\<close> is its contents. \<^verbatim>\<open>bytes.NewBuffer(data)\<close> starts with the
  contents \<open>data\<close>; the buffers of the conversion loops start empty (the capacity given
  to \<^verbatim>\<open>make\<close> only sizes the allocation).
\<close>

type_synonym Buffer = "byte list"

definition NewBuffer :: "byte list \<Rightarrow> Buffer" where
  "NewBuffer data = data"

definition WriteByte :: "Buffer \<Rightarrow> byte \<Rightarrow> Buffer" where
  "WriteByte buf c = buf @ [c]"

definition WriteRune :: "Buffer \<Rightarrow> rune \<Rightarrow> Buffer" where
  "WriteRune buf r = buf @ encodeRune r"

text \<open>The rune that a reader of the buffer finds where \<open>WriteRune buf r\<close> wrote.\<close>

definition writtenRune :: "rune \<Rightarrow> rune" where
  "writtenRune r = (if ValidRune r then r else RuneError)"

definition Buffer_String :: "Buffer \<Rightarrow> gostring" where
  "Buffer_String buf = buf"

text \<open>
  \<^verbatim>\<open>strings.Map(mapping, s)\<close>: every rune of \<open>s\<close> replaced by its image, a negative
  image dropped.
\<close>

definition strings_Map :: "(rune \<Rightarrow> rune) \<Rightarrow> gostring \<Rightarrow> gostring" where
  "strings_Map mapping s =
     concat (map (\<lambda>(c, w). if 0 \<le> mapping c then encodeRune (mapping c) else [])
       (rangeString s))"

text \<open>
  \<^verbatim>\<open>strings.ToUpper\<close>. A string of ASCII bytes has its letters \<^verbatim>\<open>a\<close> to \<^verbatim>\<open>z\<close>
  moved to \<^verbatim>\<open>A\<close> to \<^verbatim>\<open>Z\<close>; any other string is mapped rune by rune with
  \<^verbatim>\<open>unicode.ToUpper\<close>, whose case tables are not part of the package: the function is
  the parameter \<open>upper\<close>, and every statement below holds for each \<open>upper\<close>.
\<close>

definition ToUpper :: "(rune \<Rightarrow> rune) \<Rightarrow> gostring \<Rightarrow> gostring" where
  "ToUpper upper s =
     (if list_all (\<lambda>c. c < 0x80) s
      then map (\<lambda>c. if 0x61 \<le> c \<and> c \<le> 0x7A then c - 0x20 else c) s
      else strings_Map upper s)"

text \<open>
  \<^verbatim>\<open>strings.Replace(s, "_", "-", -1)\<close>: every byte \<^verbatim>\<open>_\<close> becomes \<^verbatim>\<open>-\<close>.
\<close>

definition Replace_underscore :: "gostring \<Rightarrow> gostring" where
  "Replace_underscore s = map (\<lambda>c. if c = 0x5F then 0x2D else c) s"

section \<open>The 8-bit codecs\<close>

text \<open>\<^verbatim>\<open>reverseByteRuneMap\<close>: the loop \<^verbatim>\<open>for k, v := range m { newmap[v] = k }\<close>.\<close>

fun reverseByteRuneMap_loop ::
  "(byte, rune) gomap \<Rightarrow> (rune, byte) gomap \<Rightarrow> (rune, byte) gomap" where
  "reverseByteRuneMap_loop [] newmap = newmap"
| "reverseByteRuneMap_loop ((k, v) # m) newmap =
     reverseByteRuneMap_loop m (AList.update v k newmap)"

definition reverseByteRuneMap :: "(byte, rune) gomap \<Rightarrow> (rune, byte) gomap" where
  "reverseByteRuneMap m = reverseByteRuneMap_loop m []"

text \<open>
  \<^verbatim>\<open>mapBytesToRunes\<close>: the loop over the bytes of \<open>data\<close>, with the buffer and the
  error as its state.
\<close>

fun mapBytesToRunes_loop ::
  "(byte, rune) gomap \<Rightarrow> byte list \<Rightarrow> Buffer \<times> error option \<Rightarrow> Buffer \<times> error option" where
  "mapBytesToRunes_loop cm [] (buf, err) = (buf, err)"
| "mapBytesToRunes_loop cm (c # data) (buf, err) =
     (case map_of cm c of
        Some r \<Rightarrow> mapBytesToRunes_loop cm data (WriteRune buf r, err)
      | None \<Rightarrow> mapBytesToRunes_loop cm data (WriteRune buf RuneError, Some ErrInvalidCodepoint))"

definition mapBytesToRunes :: "(byte, rune) gomap \<Rightarrow> gostring \<Rightarrow> gostring \<times> error option" where
  "mapBytesToRunes cm data =
     (let (buf, err) = mapBytesToRunes_loop cm data (NewBuffer [], None)
      in (Buffer_String buf, err))"

text \<open>
  \<^verbatim>\<open>mapRunesToBytes\<close>: the loop \<^verbatim>\<open>for _, r := range data\<close> over the runes of the
  string \<open>data\<close>.
\<close>

fun mapRunesToBytes_loop ::
  "(rune, byte) gomap \<Rightarrow> rune list \<Rightarrow> Buffer \<times> error option \<Rightarrow> Buffer \<times> error option" where
  "mapRunesToBytes_loop cm [] (buf, err) = (buf, err)"
| "mapRunesToBytes_loop cm (r # rs) (buf, err) =
     (case map_of cm r of
        Some c \<Rightarrow> mapRunesToBytes_loop cm rs (WriteByte buf c, err)
      | None \<Rightarrow> mapRunesToBytes_loop cm rs (WriteByte buf 0x3F, Some ErrInvalidCodepoint))"

definition mapRunesToBytes :: "(rune, byte) gomap \<Rightarrow> gostring \<Rightarrow> gostring \<times> error option" where
  "mapRunesToBytes cm data =
     (let (buf, err) = mapRunesToBytes_loop cm (map fst (rangeString data)) (NewBuffer [], None)
      in (Buffer_String buf, err))"

text \<open>
  The buffer variants. \<^verbatim>\<open>mapBytesToRunesBuffer\<close> has the loop of
  \<^verbatim>\<open>mapBytesToRunes\<close>. In \<^verbatim>\<open>mapRunesToBytesBuffer\<close> the loop
  \<^verbatim>\<open>for _, r := range data\<close> runs over a \<^verbatim>\<open>[]byte\<close>: \<open>r\<close> is each byte of \<open>data\<close>
  in turn, and the table is read at \<^verbatim>\<open>rune(r)\<close>, the value of that byte.
\<close>

definition mapBytesToRunesBuffer ::
  "(byte, rune) gomap \<Rightarrow> byte list \<Rightarrow> Buffer \<times> error option" where
  "mapBytesToRunesBuffer cm data = mapBytesToRunes_loop cm data (NewBuffer [], None)"

definition mapRunesToBytesBuffer ::
  "(rune, byte) gomap \<Rightarrow> byte list \<Rightarrow> Buffer \<times> error option" where
  "mapRunesToBytesBuffer cm data =
     mapRunesToBytes_loop cm (map uint data) (NewBuffer [], None)"

record codecMap8Bit =
  EncodeMap :: "(rune, byte) gomap"
  DecodeMap :: "(byte, rune) gomap"

definition codec_Encode :: "codecMap8Bit \<Rightarrow> gostring \<Rightarrow> gostring \<times> error option" where
  "codec_Encode c s = mapRunesToBytes (EncodeMap c) s"

definition codec_Decode :: "codecMap8Bit \<Rightarrow> gostring \<Rightarrow> gostring \<times> error option" where
  "codec_Decode c s = mapBytesToRunes (DecodeMap c) s"

definition codec_EncodeToBuffer :: "codecMap8Bit \<Rightarrow> byte list \<Rightarrow> Buffer \<times> error option" where
  "codec_EncodeToBuffer c s = mapRunesToBytesBuffer (EncodeMap c) s"

definition codec_DecodeToBuffer :: "codecMap8Bit \<Rightarrow> byte list \<Rightarrow> Buffer \<times> error option" where
  "codec_DecodeToBuffer c s = mapBytesToRunesBuffer (DecodeMap c) s"

section \<open>The registry and the public functions\<close>

text \<open>
  The package variables \<^verbatim>\<open>aliasesMap\<close> and \<^verbatim>\<open>codecsMap\<close> are the state: every
  function that reads or writes them takes it, and \<open>register\<close> returns it updated.
  The only implementation of the interface \<^verbatim>\<open>codec\<close> is \<^verbatim>\<open>codecMap8Bit\<close>.
\<close>

record registry =
  aliasesMap :: "(gostring, gostring) gomap"
  codecsMap :: "(gostring, codecMap8Bit) gomap"

definition empty_registry :: registry where
  "empty_registry = \<lparr>aliasesMap = [], codecsMap = []\<rparr>"

definition register :: "codecMap8Bit \<Rightarrow> gostring \<Rightarrow> gostring list \<Rightarrow> registry \<Rightarrow> registry" where
  "register c name aliases reg =
     \<lparr>aliasesMap = fold (\<lambda>alias m. AList.update alias name m) aliases (aliasesMap reg),
      codecsMap = AList.update name c (codecsMap reg)\<rparr>"

definition List :: "registry \<Rightarrow> gostring list" where
  "List reg = map fst (codecsMap reg)"

definition getCodecForEncoding :: "(rune \<Rightarrow> rune) \<Rightarrow> registry \<Rightarrow> gostring \<Rightarrow> gostring" where
  "getCodecForEncoding upper reg encoding =
     (let encoding1 = Replace_underscore (ToUpper upper encoding) in
      case map_of (aliasesMap reg) encoding1 of
        Some name \<Rightarrow> name
      | None \<Rightarrow> encoding1)"

definition Encode ::
  "(rune \<Rightarrow> rune) \<Rightarrow> registry \<Rightarrow> gostring \<Rightarrow> gostring \<Rightarrow> gostring \<times> error option" where
  "Encode upper reg data encoding =
     (case map_of (codecsMap reg) (getCodecForEncoding upper reg encoding) of
        Some codec \<Rightarrow> codec_Encode codec data
      | None \<Rightarrow> (data, Some ErrUnknownEncoding))"

definition Decode ::
  "(rune \<Rightarrow> rune) \<Rightarrow> registry \<Rightarrow> gostring \<Rightarrow> gostring \<Rightarrow> gostring \<times> error option" where
  "Decode upper reg data encoding =
     (case map_of (codecsMap reg) (getCodecForEncoding upper reg encoding) of
        Some codec \<Rightarrow> codec_Decode codec data
      | None \<Rightarrow> (data, Some ErrUnknownEncoding))"

definition EncodeToBuffer ::
  "(rune \<Rightarrow> rune) \<Rightarrow> registry \<Rightarrow> byte list \<Rightarrow> gostring \<Rightarrow> Buffer \<times> error option" where
  "EncodeToBuffer upper reg data encoding =
     (case map_of (codecsMap reg) (getCodecForEncoding upper reg encoding) of
        Some codec \<Rightarrow> codec_EncodeToBuffer codec data
      | None \<Rightarrow> (NewBuffer data, Some ErrUnknownEncoding))"

definition DecodeToBuffer ::
  "(rune \<Rightarrow> rune) \<Rightarrow> registry \<Rightarrow> byte list \<Rightarrow> gostring \<Rightarrow> Buffer \<times> error option" where
  "DecodeToBuffer upper reg data encoding =
     (case map_of (codecsMap reg) (getCodecForEncoding upper reg encoding) of
        Some codec \<Rightarrow> codec_DecodeToBuffer codec data
      | None \<Rightarrow> (NewBuffer data, Some ErrUnknownEncoding))"

section \<open>The shipped encodings\<close>

text \<open>The table of \<^verbatim>\<open>codec-iso-8859-2.go\<close>, in the order of the map literal.\<close>

definition charmapDecode_ISO_8859_2 :: "(byte \<times> rune) list" where
  "charmapDecode_ISO_8859_2 =
    [(0x00, 0x0000), (0x01, 0x0001), (0x02, 0x0002), (0x03, 0x0003),
     (0x04, 0x0004), (0x05, 0x0005), (0x06, 0x0006), (0x07, 0x0007),
     (0x08, 0x0008), (0x09, 0x0009), (0x0A, 0x000A), (0x0B, 0x000B),
     (0x0C, 0x000C), (0x0D, 0x000D), (0x0E, 0x000E), (0x0F, 0x000F),
     (0x10, 0x0010), (0x11, 0x0011), (0x12, 0x0012), (0x13, 0x0013),
     (0x14, 0x0014), (0x15, 0x0015), (0x16, 0x0016), (0x17, 0x0017),
     (0x18, 0x0018), (0x19, 0x0019), (0x1A, 0x001A), (0x1B, 0x001B),
     (0x1C, 0x001C), (0x1D, 0x001D), (0x1E, 0x001E), (0x1F, 0x001F),
     (0x20, 0x0020), (0x21, 0x0021), (0x22, 0x0022), (0x23, 0x0023),
     (0x24, 0x0024), (0x25, 0x0025), (0x26, 0x0026), (0x27, 0x0027),
     (0x28, 0x0028), (0x29, 0x0029), (0x2A, 0x002A), (0x2B, 0x002B),
     (0x2C, 0x002C), (0x2D, 0x002D), (0x2E, 0x002E), (0x2F, 0x002F),
     (0x30, 0x0030), (0x31, 0x0031), (0x32, 0x0032), (0x33, 0x0033),
     (0x34, 0x0034), (0x35, 0x0035), (0x36, 0x0036), (0x37, 0x0037),
     (0x38, 0x0038), (0x39, 0x0039), (0x3A, 0x003A), (0x3B, 0x003B),
     (0x3C, 0x003C), (0x3D, 0x003D), (0x3E, 0x003E), (0x3F, 0x003F),
     (0x40, 0x0040), (0x41, 0x0041), (0x42, 0x0042), (0x43, 0x0043),
     (0x44, 0x0044), (0x45, 0x0045), (0x46, 0x0046), (0x47, 0x0047),
     (0x48, 0x0048), (0x49, 0x0049), (0x4A, 0x004A), (0x4B, 0x004B),
     (0x4C, 0x004C), (0x4D, 0x004D), (0x4E, 0x004E), (0x4F, 0x004F),
     (0x50, 0x0050), (0x51, 0x0051), (0x52, 0x0052), (0x53, 0x0053),
     (0x54, 0x0054), (0x55, 0x0055), (0x56, 0x0056), (0x57, 0x0057),
     (0x58, 0x0058), (0x59, 0x0059), (0x5A, 0x005A), (0x5B, 0x005B),
     (0x5C, 0x005C), (0x5D, 0x005D), (0x5E, 0x005E), (0x5F, 0x005F),
     (0x60, 0x0060), (0x61, 0x0061), (0x62, 0x0062), (0x63, 0x0063),
     (0x64, 0x0064), (0x65, 0x0065), (0x66, 0x0066), (0x67, 0x0067),
     (0x68, 0x0068), (0x69, 0x0069), (0x6A, 0x006A), (0x6B, 0x006B),
     (0x6C, 0x006C), (0x6D, 0x006D), (0x6E, 0x006E), (0x6F, 0x006F),
     (0x70, 0x0070), (0x71, 0x0071), (0x72, 0x0072), (0x73, 0x0073),
     (0x74, 0x0074), (0x75, 0x0075), (0x76, 0x0076), (0x77, 0x0077),
     (0x78, 0x0078), (0x79, 0x0079), (0x7A, 0x007A), (0x7B, 0x007B),
     (0x7C, 0x007C), (0x7D, 0x007D), (0x7E, 0x007E), (0x7F, 0x007F),
     (0x80, 0x0080), (0x81, 0x0081), (0x82, 0x0082), (0x83, 0x0083),
     (0x84, 0x0084), (0x85, 0x0085), (0x86, 0x0086), (0x87, 0x0087),
     (0x88, 0x0088), (0x89, 0x0089), (0x8A, 0x008A), (0x8B, 0x008B),
     (0x8C, 0x008C), (0x8D, 0x008D), (0x8E, 0x008E), (0x8F, 0x008F),
     (0x90, 0x0090), (0x91, 0x0091), (0x92, 0x0092), (0x93, 0x0093),
     (0x94, 0x0094), (0x95, 0x0095), (0x96, 0x0096), (0x97, 0x0097),
     (0x98, 0x0098), (0x99, 0x0099), (0x9A, 0x009A), (0x9B, 0x009B),
     (0x9C, 0x009C), (0x9D, 0x009D), (0x9E, 0x009E), (0x9F, 0x009F),
     (0xA0, 0x00A0), (0xA1, 0x0104), (0xA2, 0x02D8), (0xA3, 0x0141),
     (0xA4, 0x00A4), (0xA5, 0x013D), (0xA6, 0x015A), (0xA7, 0x00A7),
     (0xA8, 0x00A8), (0xA9, 0x0160), (0xAA, 0x015E), (0xAB, 0x0164),
     (0xAC, 0x0179), (0xAD, 0x00AD), (0xAE, 0x017D), (0xAF, 0x017B),
     (0xB0, 0x00B0), (0xB1, 0x0105), (0xB2, 0x02DB), (0xB3, 0x0142),
     (0xB4, 0x00B4), (0xB5, 0x013E), (0xB6, 0x015B), (0xB7, 0x02C7),
     (0xB8, 0x00B8), (0xB9, 0x0161), (0xBA, 0x015F), (0xBB, 0x0165),
     (0xBC, 0x017A), (0xBD, 0x02DD), (0xBE, 0x017E), (0xBF, 0x017C),
     (0xC0, 0x0154), (0xC1, 0x00C1), (0xC2, 0x00C2), (0xC3, 0x0102),
     (0xC4, 0x00C4), (0xC5, 0x0139), (0xC6, 0x0106), (0xC7, 0x00C7),
     (0xC8, 0x010C), (0xC9, 0x00C9), (0xCA, 0x0118), (0xCB, 0x00CB),
     (0xCC, 0x011A), (0xCD, 0x00CD), (0xCE, 0x00CE), (0xCF, 0x010E),
     (0xD0, 0x0110), (0xD1, 0x0143), (0xD2, 0x0147), (0xD3, 0x00D3),
     (0xD4, 0x00D4), (0xD5, 0x0150), (0xD6, 0x00D6), (0xD7, 0x00D7),
     (0xD8, 0x0158), (0xD9, 0x016E), (0xDA, 0x00DA), (0xDB, 0x0170),
     (0xDC, 0x00DC), (0xDD, 0x00DD), (0xDE, 0x0162), (0xDF, 0x00DF),
     (0xE0, 0x0155), (0xE1, 0x00E1), (0xE2, 0x00E2), (0xE3, 0x0103),
     (0xE4, 0x00E4), (0xE5, 0x013A), (0xE6, 0x0107), (0xE7, 0x00E7),
     (0xE8, 0x010D), (0xE9, 0x00E9), (0xEA, 0x0119), (0xEB, 0x00EB),
     (0xEC, 0x011B), (0xED, 0x00ED), (0xEE, 0x00EE), (0xEF, 0x010F),
     (0xF0, 0x0111), (0xF1, 0x0144), (0xF2, 0x0148), (0xF3, 0x00F3),
     (0xF4, 0x00F4), (0xF5, 0x0151), (0xF6, 0x00F6), (0xF7, 0x00F7),
     (0xF8, 0x0159), (0xF9, 0x016F), (0xFA, 0x00FA), (0xFB, 0x0171),
     (0xFC, 0x00FC), (0xFD, 0x00FD), (0xFE, 0x0163), (0xFF, 0x02D9)]"

text \<open>The table of the file that registers \<^verbatim>\<open>ISO-8859-14\<close>.\<close>

definition charmapDecode_ISO_8859_14 :: "(byte \<times> rune) list" where
  "charmapDecode_ISO_8859_14 =
    [(0x00, 0x0000), (0x01, 0x0001), (0x02, 0x0002), (0x03, 0x0003),
     (0x04, 0x0004), (0x05, 0x0005), (0x06, 0x0006), (0x07, 0x0007),
     (0x08, 0x0008), (0x09, 0x0009), (0x0A, 0x000A), (0x0B, 0x000B),
     (0x0C, 0x000C), (0x0D, 0x000D), (0x0E, 0x000E), (0x0F, 0x000F),
     (0x10, 0x0010), (0x11, 0x0011), (0x12, 0x0012), (0x13, 0x0013),
     (0x14, 0x0014), (0x15, 0x0015), (0x16, 0x0016), (0x17, 0x0017),
     (0x18, 0x0018), (0x19, 0x0019), (0x1A, 0x001A), (0x1B, 0x001B),
     (0x1C, 0x001C), (0x1D, 0x001D), (0x1E, 0x001E), (0x1F, 0x001F),
     (0x20, 0x0020), (0x21, 0x0021), (0x22, 0x0022), (0x23, 0x0023),
     (0x24, 0x0024), (0x25, 0x0025), (0x26, 0x0026), (0x27, 0x0027),
     (0x28, 0x0028), (0x29, 0x0029), (0x2A, 0x002A), (0x2B, 0x002B),
     (0x2C, 0x002C), (0x2D, 0x002D), (0x2E, 0x002E), (0x2F, 0x002F),
     (0x30, 0x0030), (0x31, 0x0031), (0x32, 0x0032), (0x33, 0x0033),
     (0x34, 0x0034), (0x35, 0x0035), (0x36, 0x0036), (0x37, 0x0037),
     (0x38, 0x0038), (0x39, 0x0039), (0x3A, 0x003A), (0x3B, 0x003B),
     (0x3C, 0x003C), (0x3D, 0x003D), (0x3E, 0x003E), (0x3F, 0x003F),
     (0x40, 0x0040), (0x41, 0x0041), (0x42, 0x0042), (0x43, 0x0043),
     (0x44, 0x0044), (0x45, 0x0045), (0x46, 0x0046), (0x47, 0x0047),
     (0x48, 0x0048), (0x49, 0x0049), (0x4A, 0x004A), (0x4B, 0x004B),
     (0x4C, 0x004C), (0x4D, 0x004D), (0x4E, 0x004E), (0x4F, 0x004F),
     (0x50, 0x0050), (0x51, 0x0051), (0x52, 0x0052), (0x53, 0x0053),
     (0x54, 0x0054), (0x55, 0x0055), (0x56, 0x0056), (0x57, 0x0057),
     (0x58, 0x0058), (0x59, 0x0059), (0x5A, 0x005A), (0x5B, 0x005B),
     (0x5C, 0x005C), (0x5D, 0x005D), (0x5E, 0x005E), (0x5F, 0x005F),
     (0x60, 0x0060), (0x61, 0x0061), (0x62, 0x0062), (0x63, 0x0063),
     (0x64, 0x0064), (0x65, 0x0065), (0x66, 0x0066), (0x67, 0x0067),
     (0x68, 0x0068), (0x69, 0x0069), (0x6A, 0x006A), (0x6B, 0x006B),
     (0x6C, 0x006C), (0x6D, 0x006D), (0x6E, 0x006E), (0x6F, 0x006F),
     (0x70, 0x0070), (0x71, 0x0071), (0x72, 0x0072), (0x73, 0x0073),
     (0x74, 0x0074), (0x75, 0x0075), (0x76, 0x0076), (0x77, 0x0077),
     (0x78, 0x0078), (0x79, 0x0079), (0x7A, 0x007A), (0x7B, 0x007B),
     (0x7C, 0x007C), (0x7D, 0x007D), (0x7E, 0x007E), (0x7F, 0x007F),
     (0x80, 0x0080), (0x81, 0x0081), (0x82, 0x0082), (0x83, 0x0083),
     (0x84, 0x0084), (0x85, 0x0085), (0x86, 0x0086), (0x87, 0x0087),
     (0x88, 0x0088), (0x89, 0x0089), (0x8A, 0x008A), (0x8B, 0x008B),
     (0x8C, 0x008C), (0x8D, 0x008D), (0x8E, 0x008E), (0x8F, 0x008F),
     (0x90, 0x0090), (0x91, 0x0091), (0x92, 0x0092), (0x93, 0x0093),
     (0x94, 0x0094), (0x95, 0x0095), (0x96, 0x0096), (0x97, 0x0097),
     (0x98, 0x0098), (0x99, 0x0099), (0x9A, 0x009A), (0x9B, 0x009B),
     (0x9C, 0x009C), (0x9D, 0x009D), (0x9E, 0x009E), (0x9F, 0x009F),
     (0xA0, 0x00A0), (0xA1, 0x1E02), (0xA2, 0x1E03), (0xA3, 0x00A3),
     (0xA4, 0x010A), (0xA5, 0x010B), (0xA6, 0x1E0A), (0xA7, 0x00A7),
     (0xA8, 0x1E80), (0xA9, 0x00A9), (0xAA, 0x1E82), (0xAB, 0x1E0B),
     (0xAC, 0x1EF2), (0xAD, 0x00AD), (0xAE, 0x00AE), (0xAF, 0x0178),
     (0xB0, 0x1E1E), (0xB1, 0x1E1F), (0xB2, 0x0120), (0xB3, 0x0121),
     (0xB4, 0x1E40), (0xB5, 0x1E41), (0xB6, 0x00B6), (0xB7, 0x1E56),
     (0xB8, 0x1E81), (0xB9, 0x1E57), (0xBA, 0x1E83), (0xBB, 0x1E60),
     (0xBC, 0x1EF3), (0xBD, 0x1E84), (0xBE, 0x1E85), (0xBF, 0x1E61),
     (0xC0, 0x00C0), (0xC1, 0x00C1), (0xC2, 0x00C2), (0xC3, 0x00C3),
     (0xC4, 0x00C4), (0xC5, 0x00C5), (0xC6, 0x00C6), (0xC7, 0x00C7),
     (0xC8, 0x00C8), (0xC9, 0x00C9), (0xCA, 0x00CA), (0xCB, 0x00CB),
     (0xCC, 0x00CC), (0xCD, 0x00CD), (0xCE, 0x00CE), (0xCF, 0x00CF),
     (0xD0, 0x0174), (0xD1, 0x00D1), (0xD2, 0x00D2), (0xD3, 0x00D3),
     (0xD4, 0x00D4), (0xD5, 0x00D5), (0xD6, 0x00D6), (0xD7, 0x1E6A),
     (0xD8, 0x00D8), (0xD9, 0x00D9), (0xDA, 0x00DA), (0xDB, 0x00DB),
     (0xDC, 0x00DC), (0xDD, 0x00DD), (0xDE, 0x0176), (0xDF, 0x00DF),
     (0xE0, 0x00E0), (0xE1, 0x00E1), (0xE2, 0x00E2), (0xE3, 0x00E3),
     (0xE4, 0x00E4), (0xE5, 0x00E5), (0xE6, 0x00E6), (0xE7, 0x00E7),
     (0xE8, 0x00E8), (0xE9, 0x00E9), (0xEA, 0x00EA), (0xEB, 0x00EB),
     (0xEC, 0x00EC), (0xED, 0x00ED), (0xEE, 0x00EE), (0xEF, 0x00EF),
     (0xF0, 0x0175), (0xF1, 0x00F1), (0xF2, 0x00F2), (0xF3, 0x00F3),
     (0xF4, 0x00F4), (0xF5, 0x00F5), (0xF6, 0x00F6), (0xF7, 0x1E6B),
     (0xF8, 0x00F8), (0xF9, 0x00F9), (0xFA, 0x00FA), (0xFB, 0x00FB),
     (0xFC, 0x00FC), (0xFD, 0x00FD), (0xFE, 0x0177), (0xFF, 0x00FF)]"

text \<open>
  The body of an \<^verbatim>\<open>init\<close> function: the encode table is derived from the decode
  table, and the codec holds both.
\<close>

definition newCodec :: "(byte, rune) gomap \<Rightarrow> codecMap8Bit" where
  "newCodec charmapDecode =
     \<lparr>EncodeMap = reverseByteRuneMap charmapDecode, DecodeMap = charmapDecode\<rparr>"

definition init_ISO_8859_2 :: "registry \<Rightarrow> registry" where
  "init_ISO_8859_2 reg =
     register (newCodec charmapDecode_ISO_8859_2) (str ''ISO-8859-2'')
       [str ''8859-2'', str ''ISO8859-2''] reg"

definition init_ISO_8859_14 :: "registry \<Rightarrow> registry" where
  "init_ISO_8859_14 reg =
     register (newCodec charmapDecode_ISO_8859_14) (str ''ISO-8859-14'')
       [str ''8859-14'', str ''ISO8859-14''] reg"

text \<open>
  The state once every \<^verbatim>\<open>init\<close> function has run, which is the state every public
  call sees. The two registrations write different keys, so their order does not matter
  to any lookup.
\<close>

definition charmap_registry :: registry where
  "charmap_registry = init_ISO_8859_2 (init_ISO_8859_14 empty_registry)"

section \<open>Properties of the UTF-8 functions\<close>

text \<open>
  The arithmetic of \<open>encodeRune\<close> and \<open>DecodeRuneInString\<close> is the bit arithmetic of
  the library: a mask is a remainder, a shift a multiplication or a division, and the
  or of a shifted value with a value below the shift is their sum.
\<close>

unbundle bit_operations_syntax

lemma masks_as_mod:
  fixes x :: int
  shows "x AND 0x3F = x mod 64" "x AND 0x1F = x mod 32" "x AND 0x0F = x mod 16" "x AND 0x07 = x mod 8"
proof -
  have m: "(0x3F :: int) = mask 6" "(0x1F :: int) = mask 5" "(0x0F :: int) = mask 4" "(0x07 :: int) = mask 3"
    by (simp_all add: mask_eq_exp_minus_1)
  show "x AND 0x3F = x mod 64" "x AND 0x1F = x mod 32" "x AND 0x0F = x mod 16" "x AND 0x07 = x mod 8"
    unfolding m by (simp_all add: take_bit_eq_mod flip: take_bit_eq_mask)
qed

lemma shifts_as_mult_div:
  fixes x :: int
  shows "push_bit 6 x = x * 64" "push_bit 12 x = x * 4096" "push_bit 18 x = x * 262144"
    "drop_bit 6 x = x div 64" "drop_bit 12 x = x div 4096" "drop_bit 18 x = x div 262144"
  by (simp_all add: push_bit_eq_mult drop_bit_eq_div)

lemma or_as_sum:
  fixes a b :: int
  assumes "0 \<le> b" "b < 2 ^ n"
  shows "push_bit n a OR b = push_bit n a + b"
proof -
  have "take_bit n b = b"
    using assms by (simp add: take_bit_int_eq_self)
  then have "push_bit n a + b = push_bit n a + take_bit n b"
    by simp
  also have "\<dots> = push_bit n a OR take_bit n b"
    by (rule disjunctive_add) (auto simp: bit_simps)
  finally show ?thesis
    using \<open>take_bit n b = b\<close> by simp
qed

lemma uint_byte: "0 \<le> x \<Longrightarrow> x < 256 \<Longrightarrow> uint (word_of_int x :: byte) = x"
  by (simp add: uint_word_of_int_eq take_bit_int_eq_self)

lemma decode2:
  "0xC2 \<le> uint b0 \<Longrightarrow> uint b0 < 0xE0 \<Longrightarrow> 0x80 \<le> uint b1 \<Longrightarrow> uint b1 \<le> 0xBF \<Longrightarrow>
   DecodeRuneInString (b0 # b1 # t) = (uint b0 mod 32 * 64 + uint b1 mod 64, 2)"
  by (simp add: Let_def accept_lo_def accept_hi_def)

lemma decode3:
  "0xE0 \<le> uint b0 \<Longrightarrow> uint b0 < 0xF0 \<Longrightarrow> accept_lo (uint b0) \<le> uint b1 \<Longrightarrow> uint b1 \<le> accept_hi (uint b0) \<Longrightarrow>
   0x80 \<le> uint b2 \<Longrightarrow> uint b2 \<le> 0xBF \<Longrightarrow>
   DecodeRuneInString (b0 # b1 # b2 # t) =
     (uint b0 mod 16 * 4096 + uint b1 mod 64 * 64 + uint b2 mod 64, 3)"
  by (simp add: Let_def accept_lo_def accept_hi_def split: if_splits)

lemma decode4:
  "0xF0 \<le> uint b0 \<Longrightarrow> uint b0 \<le> 0xF4 \<Longrightarrow> accept_lo (uint b0) \<le> uint b1 \<Longrightarrow> uint b1 \<le> accept_hi (uint b0) \<Longrightarrow>
   0x80 \<le> uint b2 \<Longrightarrow> uint b2 \<le> 0xBF \<Longrightarrow> 0x80 \<le> uint b3 \<Longrightarrow> uint b3 \<le> 0xBF \<Longrightarrow>
   DecodeRuneInString (b0 # b1 # b2 # b3 # t) =
     (uint b0 mod 8 * 262144 + uint b1 mod 64 * 4096 + uint b2 mod 64 * 64 + uint b3 mod 64, 4)"
  by (simp add: Let_def accept_lo_def accept_hi_def split: if_splits)

lemma list_shapes:
  obtains "t = []" | b1 where "t = [b1]" | b1 b2 where "t = [b1, b2]"
  | b1 b2 b3 t' where "t = b1 # b2 # b3 # t'"
  by (metis list.exhaust)

lemma DecodeRuneInString_disj:
  "uint b0 < 0x80
   \<or> (\<exists>b1 t'. t = b1 # t' \<and> 0xC2 \<le> uint b0 \<and> uint b0 < 0xE0 \<and> 0x80 \<le> uint b1 \<and> uint b1 \<le> 0xBF)
   \<or> (\<exists>b1 b2 t'. t = b1 # b2 # t' \<and> 0xE0 \<le> uint b0 \<and> uint b0 < 0xF0 \<and>
        accept_lo (uint b0) \<le> uint b1 \<and> uint b1 \<le> accept_hi (uint b0) \<and> 0x80 \<le> uint b2 \<and> uint b2 \<le> 0xBF)
   \<or> (\<exists>b1 b2 b3 t'. t = b1 # b2 # b3 # t' \<and> 0xF0 \<le> uint b0 \<and> uint b0 \<le> 0xF4 \<and>
        accept_lo (uint b0) \<le> uint b1 \<and> uint b1 \<le> accept_hi (uint b0) \<and> 0x80 \<le> uint b2 \<and> uint b2 \<le> 0xBF \<and>
        0x80 \<le> uint b3 \<and> uint b3 \<le> 0xBF)
   \<or> (0x80 \<le> uint b0 \<and> DecodeRuneInString (b0 # t) = (RuneError, 1))"
proof (cases t rule: list_shapes)
  case 1
  then show ?thesis by (simp add: Let_def)
next
  case (2 b1)
  then show ?thesis by (simp add: Let_def accept_lo_def accept_hi_def)
next
  case (3 b1 b2)
  then show ?thesis by (simp add: Let_def accept_lo_def accept_hi_def)
next
  case (4 b1 b2 b3 t')
  then show ?thesis by (simp add: Let_def accept_lo_def accept_hi_def)
qed

lemma DecodeRuneInString_cases:
  obtains (ascii) "uint c < 0x80"
  | (two) b1 t' where "t = b1 # t'" "0xC2 \<le> uint c" "uint c < 0xE0"
      "0x80 \<le> uint b1" "uint b1 \<le> 0xBF"
  | (three) b1 b2 t' where "t = b1 # b2 # t'" "0xE0 \<le> uint c" "uint c < 0xF0"
      "accept_lo (uint c) \<le> uint b1" "uint b1 \<le> accept_hi (uint c)" "0x80 \<le> uint b2" "uint b2 \<le> 0xBF"
  | (four) b1 b2 b3 t' where "t = b1 # b2 # b3 # t'" "0xF0 \<le> uint c" "uint c \<le> 0xF4"
      "accept_lo (uint c) \<le> uint b1" "uint b1 \<le> accept_hi (uint c)" "0x80 \<le> uint b2" "uint b2 \<le> 0xBF"
      "0x80 \<le> uint b3" "uint b3 \<le> 0xBF"
  | (invalid) "0x80 \<le> uint c" "DecodeRuneInString (c # t) = (RuneError, 1)"
  using DecodeRuneInString_disj [of c t] by blast

lemma divmod_step:
  fixes a b n :: int
  assumes "0 \<le> b" "b < n"
  shows "(a * n + b) div n = a" and "(a * n + b) mod n = b"
  using assms by simp_all

lemma mod_offset:
  fixes u :: int
  assumes "k * n \<le> u" "u < k * n + n"
  shows "u mod n = u - k * n"
  using divmod_step(2) [of "u - k * n" n k] assms by simp

lemma encode_decoded2:
  assumes "0xC2 \<le> uint b0" "uint b0 < 0xE0" "0x80 \<le> uint b1" "uint b1 \<le> 0xBF"
  defines "r \<equiv> uint b0 mod 32 * 64 + uint b1 mod 64"
  shows "encodeRune r = [b0, b1] \<and> ValidRune r \<and> r \<noteq> RuneError"
proof -
  define a where "a = uint b0 - 0xC0"
  define b where "b = uint b1 - 0x80"
  have a: "2 \<le> a" "a < 32" and b: "0 \<le> b" "b < 64"
    using assms(1-4) by (simp_all add: a_def b_def)
  have m0: "uint b0 mod 32 = a"
    using mod_offset [of 6 32 "uint b0"] assms(1,2) by (simp add: a_def)
  have m1: "uint b1 mod 64 = b"
    using mod_offset [of 2 64 "uint b1"] assms(3,4) by (simp add: b_def)
  have r: "r = a * 64 + b"
    by (simp add: r_def m0 m1)
  have d: "r div 64 = a" and m: "r mod 64 = b"
    unfolding r using b by (rule divmod_step)+
  have lo: "0x7F < r" and hi: "r \<le> 0x7FF"
    using a b unfolding r by linarith+
  have w: "word_of_int (0xC0 + a) = b0" "word_of_int (0x80 + b) = b1"
    by (simp_all add: a_def b_def)
  show ?thesis
    using lo hi w by (simp add: encodeRune_def d m ValidRune_def RuneError_def)
qed

lemma encode_decoded3:
  assumes "0xE0 \<le> uint b0" "uint b0 < 0xF0" "accept_lo (uint b0) \<le> uint b1" "uint b1 \<le> accept_hi (uint b0)"
    "0x80 \<le> uint b2" "uint b2 \<le> 0xBF"
  defines "r \<equiv> uint b0 mod 16 * 4096 + uint b1 mod 64 * 64 + uint b2 mod 64"
  shows "encodeRune r = [b0, b1, b2] \<and> ValidRune r"
proof -
  define a where "a = uint b0 - 0xE0"
  define b where "b = uint b1 - 0x80"
  define c where "c = uint b2 - 0x80"
  have b1: "0x80 \<le> uint b1" "uint b1 \<le> 0xBF"
    using assms(3,4) by (auto simp: accept_lo_def accept_hi_def split: if_splits)
  have a: "0 \<le> a" "a < 16" and b: "0 \<le> b" "b < 64" and c: "0 \<le> c" "c < 64"
    using assms(1,2,5,6) b1 by (simp_all add: a_def b_def c_def)
  have a0: "a = 0 \<Longrightarrow> 32 \<le> b" and a13: "a = 13 \<Longrightarrow> b < 32"
    using assms(3,4) by (auto simp: a_def b_def accept_lo_def accept_hi_def split: if_splits)
  have m0: "uint b0 mod 16 = a"
    using mod_offset [of 14 16 "uint b0"] assms(1,2) by (simp add: a_def)
  have m1: "uint b1 mod 64 = b"
    using mod_offset [of 2 64 "uint b1"] b1 by (simp add: b_def)
  have m2: "uint b2 mod 64 = c"
    using mod_offset [of 2 64 "uint b2"] assms(5,6) by (simp add: c_def)
  have r: "r = a * 4096 + b * 64 + c"
    by (simp add: r_def m0 m1 m2)
  have r': "r = (a * 64 + b) * 64 + c" and r'': "r = a * 4096 + (b * 64 + c)"
    unfolding r by simp_all
  have m: "r mod 64 = c" and d6: "r div 64 = a * 64 + b"
    unfolding r' using c by (rule divmod_step)+
  have d1: "(r div 64) mod 64 = b"
    unfolding d6 using b by (rule divmod_step)
  have d: "r div 4096 = a"
    unfolding r'' using b c by (intro divmod_step) linarith+
  have lo: "0x7FF < r"
    using a b c a0 unfolding r by (cases "a = 0") linarith+
  have hi: "r \<le> 0xFFFF"
    using a b c unfolding r by linarith
  have ns: "r < 0xD800 \<or> 0xDFFF < r"
    using a b c a13 unfolding r by (cases "a = 13") linarith+
  have w: "word_of_int (0xE0 + a) = b0" "word_of_int (0x80 + b) = b1" "word_of_int (0x80 + c) = b2"
    by (simp_all add: a_def b_def c_def)
  show ?thesis
    using lo hi ns w by (auto simp: encodeRune_def d d1 m ValidRune_def)
qed

lemma encode_decoded4:
  assumes "0xF0 \<le> uint b0" "uint b0 \<le> 0xF4" "accept_lo (uint b0) \<le> uint b1" "uint b1 \<le> accept_hi (uint b0)"
    "0x80 \<le> uint b2" "uint b2 \<le> 0xBF" "0x80 \<le> uint b3" "uint b3 \<le> 0xBF"
  defines "r \<equiv> uint b0 mod 8 * 262144 + uint b1 mod 64 * 4096 + uint b2 mod 64 * 64 + uint b3 mod 64"
  shows "encodeRune r = [b0, b1, b2, b3] \<and> ValidRune r \<and> r \<noteq> RuneError"
proof -
  define a where "a = uint b0 - 0xF0"
  define b where "b = uint b1 - 0x80"
  define c where "c = uint b2 - 0x80"
  define d where "d = uint b3 - 0x80"
  have b1: "0x80 \<le> uint b1" "uint b1 \<le> 0xBF"
    using assms(3,4) by (auto simp: accept_lo_def accept_hi_def split: if_splits)
  have a: "0 \<le> a" "a \<le> 4" and b: "0 \<le> b" "b < 64" and c: "0 \<le> c" "c < 64"
    and d: "0 \<le> d" "d < 64"
    using assms(1,2,5-8) b1 by (simp_all add: a_def b_def c_def d_def)
  have a0: "a = 0 \<Longrightarrow> 16 \<le> b" and a4: "a = 4 \<Longrightarrow> b < 16"
    using assms(3,4) by (auto simp: a_def b_def accept_lo_def accept_hi_def split: if_splits)
  have m0: "uint b0 mod 8 = a"
    using mod_offset [of 30 8 "uint b0"] assms(1,2) by (simp add: a_def)
  have m1: "uint b1 mod 64 = b"
    using mod_offset [of 2 64 "uint b1"] b1 by (simp add: b_def)
  have m2: "uint b2 mod 64 = c"
    using mod_offset [of 2 64 "uint b2"] assms(5,6) by (simp add: c_def)
  have m3: "uint b3 mod 64 = d"
    using mod_offset [of 2 64 "uint b3"] assms(7,8) by (simp add: d_def)
  have r: "r = a * 262144 + b * 4096 + c * 64 + d"
    by (simp add: r_def m0 m1 m2 m3)
  have r1: "r = (a * 4096 + b * 64 + c) * 64 + d"
    and r2: "r = (a * 64 + b) * 4096 + (c * 64 + d)"
    and r3: "r = a * 262144 + (b * 4096 + c * 64 + d)"
    unfolding r by simp_all
  have m: "r mod 64 = d" and d6: "r div 64 = a * 4096 + b * 64 + c"
    unfolding r1 using d by (rule divmod_step)+
  have e: "a * 4096 + b * 64 + c = (a * 64 + b) * 64 + c"
    by simp
  have d2: "(r div 64) mod 64 = c"
    unfolding d6 e using c by (rule divmod_step)
  have d12: "r div 4096 = a * 64 + b"
    unfolding r2 using c d by (intro divmod_step) linarith+
  have d1: "(r div 4096) mod 64 = b"
    unfolding d12 using b by (rule divmod_step)
  have d18: "r div 262144 = a"
    unfolding r3 using b c d by (intro divmod_step) linarith+
  have lo: "0xFFFF < r"
    using a b c d a0 unfolding r by (cases "a = 0") linarith+
  have hi: "r \<le> 0x10FFFF"
    using a b c d a4 unfolding r by (cases "a = 4") linarith+
  have w: "word_of_int (0xF0 + a) = b0" "word_of_int (0x80 + b) = b1"
    "word_of_int (0x80 + c) = b2" "word_of_int (0x80 + d) = b3"
    by (simp_all add: a_def b_def c_def d_def)
  show ?thesis
    using lo hi w by (auto simp: encodeRune_def d18 d1 d2 m ValidRune_def RuneError_def)
qed


text \<open>
  Decoding, then encoding: a rune read from a valid encoding is written back as the
  bytes it was read from.
\<close>

lemma encodeRune_DecodeRuneInString:
  assumes "DecodeRuneInString (b # s) = (r, w)" "(r, w) \<noteq> (RuneError, 1)"
  shows "encodeRune r = take w (b # s) \<and> ValidRune r"
proof (cases rule: DecodeRuneInString_cases [where c = b and t = s])
  case ascii
  then have "r = uint b" "w = 1"
    using assms(1) by simp_all
  then show ?thesis
    using ascii by (simp add: encodeRune_def ValidRune_def)
next
  case (two b1 t')
  then show ?thesis
    using assms(1) encode_decoded2 [of b b1] by (auto simp: decode2 simp del: DecodeRuneInString.simps)
next
  case (three b1 b2 t')
  then show ?thesis
    using assms(1) encode_decoded3 [of b b1 b2] by (auto simp: decode3 simp del: DecodeRuneInString.simps)
next
  case (four b1 b2 b3 t')
  then show ?thesis
    using assms(1) encode_decoded4 [of b b1 b2 b3] by (auto simp: decode4 simp del: DecodeRuneInString.simps)
next
  case invalid
  then show ?thesis using assms by simp
qed


lemma rangeString_reencode:
  "(RuneError, 1) \<notin> set (rangeString s) \<Longrightarrow>
   concat (map (\<lambda>(r, w). encodeRune r) (rangeString s)) = s"
proof (induction s rule: rangeString.induct)
  case 1
  then show ?case by simp
next
  case (2 b s)
  obtain r w where d: "DecodeRuneInString (b # s) = (r, w)"
    by (cases "DecodeRuneInString (b # s)")
  have ne: "(r, w) \<noteq> (RuneError, 1)"
    using 2(2) d by auto
  have e: "encodeRune r = take w (b # s)"
    using encodeRune_DecodeRuneInString [OF d ne] by simp
  have "concat (map (\<lambda>(r, w). encodeRune r) (rangeString (drop w (b # s)))) = drop w (b # s)"
    using 2 d by simp
  then show ?case
    using d e by simp
qed

lemma decode_encoded1:
  assumes "0 \<le> r" "r \<le> 0x7F"
  shows "DecodeRuneInString (encodeRune r @ rest) = (r, 1)"
  using assms by (simp add: encodeRune_def uint_byte)

lemma decode_encoded2:
  assumes "0x7F < r" "r \<le> 0x7FF"
  shows "DecodeRuneInString (encodeRune r @ rest) = (r, 2)"
proof -
  define a where "a = r div 64"
  define b where "b = r mod 64"
  define b0 :: byte where "b0 = word_of_int (0xC0 + a)"
  define b1 :: byte where "b1 = word_of_int (0x80 + b)"
  have r: "r = a * 64 + b"
    by (simp add: a_def b_def)
  have b: "0 \<le> b" "b < 64"
    by (simp_all add: b_def)
  have a: "2 \<le> a" "a < 32"
    using assms b r by linarith+
  have u0: "uint b0 = 0xC0 + a" and u1: "uint b1 = 0x80 + b"
    unfolding b0_def b1_def using a b by (intro uint_byte; linarith)+
  have m0: "uint b0 mod 32 = a"
    using mod_offset [of 6 32 "uint b0"] a by (simp add: u0)
  have m1: "uint b1 mod 64 = b"
    using mod_offset [of 2 64 "uint b1"] b by (simp add: u1)
  have e: "encodeRune r = [b0, b1]"
    using assms by (simp add: encodeRune_def a_def b_def b0_def b1_def)
  have "DecodeRuneInString (b0 # b1 # rest) = (uint b0 mod 32 * 64 + uint b1 mod 64, 2)"
    using a b by (intro decode2) (simp_all add: u0 u1)
  then have "DecodeRuneInString (b0 # b1 # rest) = (r, 2)"
    unfolding m0 m1 r .
  then show ?thesis
    by (simp add: e del: DecodeRuneInString.simps)
qed

lemma decode_encoded3:
  assumes "0x7FF < r" "r \<le> 0xFFFF" "r < 0xD800 \<or> 0xDFFF < r"
  shows "DecodeRuneInString (encodeRune r @ rest) = (r, 3)"
proof -
  define a where "a = r div 4096"
  define b where "b = (r div 64) mod 64"
  define c where "c = r mod 64"
  define b0 :: byte where "b0 = word_of_int (0xE0 + a)"
  define b1 :: byte where "b1 = word_of_int (0x80 + b)"
  define b2 :: byte where "b2 = word_of_int (0x80 + c)"
  have a': "a = r div 64 div 64"
    unfolding a_def using zdiv_zmult2_eq [of 64 r 64] by simp
  have "r = r div 64 * 64 + c" and "r div 64 = a * 64 + b"
    by (simp_all add: a' b_def c_def)
  then have r: "r = a * 4096 + b * 64 + c"
    by simp
  have b: "0 \<le> b" "b < 64" and c: "0 \<le> c" "c < 64"
    by (simp_all add: b_def c_def)
  have a: "0 \<le> a" "a < 16"
    using assms(1,2) b c r by linarith+
  have a0: "a = 0 \<Longrightarrow> 32 \<le> b" and a13: "a = 13 \<Longrightarrow> b < 32"
    using assms b c r by linarith+
  have u0: "uint b0 = 0xE0 + a" and u1: "uint b1 = 0x80 + b" and u2: "uint b2 = 0x80 + c"
    unfolding b0_def b1_def b2_def using a b c by (intro uint_byte; linarith)+
  have m0: "uint b0 mod 16 = a"
    using mod_offset [of 14 16 "uint b0"] a by (simp add: u0)
  have m1: "uint b1 mod 64 = b"
    using mod_offset [of 2 64 "uint b1"] b by (simp add: u1)
  have m2: "uint b2 mod 64 = c"
    using mod_offset [of 2 64 "uint b2"] c by (simp add: u2)
  have e: "encodeRune r = [b0, b1, b2]"
    using assms by (auto simp: encodeRune_def a_def b_def c_def b0_def b1_def b2_def)
  have "DecodeRuneInString (b0 # b1 # b2 # rest) =
      (uint b0 mod 16 * 4096 + uint b1 mod 64 * 64 + uint b2 mod 64, 3)"
    using a b c a0 a13 by (intro decode3) (auto simp: u0 u1 u2 accept_lo_def accept_hi_def)
  then have "DecodeRuneInString (b0 # b1 # b2 # rest) = (r, 3)"
    unfolding m0 m1 m2 r .
  then show ?thesis
    by (simp add: e del: DecodeRuneInString.simps)
qed

lemma decode_encoded4:
  assumes "0xFFFF < r" "r \<le> 0x10FFFF"
  shows "DecodeRuneInString (encodeRune r @ rest) = (r, 4)"
proof -
  define a where "a = r div 262144"
  define b where "b = (r div 4096) mod 64"
  define c where "c = (r div 64) mod 64"
  define d where "d = r mod 64"
  define b0 :: byte where "b0 = word_of_int (0xF0 + a)"
  define b1 :: byte where "b1 = word_of_int (0x80 + b)"
  define b2 :: byte where "b2 = word_of_int (0x80 + c)"
  define b3 :: byte where "b3 = word_of_int (0x80 + d)"
  have d12: "r div 4096 = r div 64 div 64"
    using zdiv_zmult2_eq [of 64 r 64] by simp
  have a': "a = r div 4096 div 64"
    unfolding a_def using zdiv_zmult2_eq [of 64 r 4096] by simp
  have "r = r div 64 * 64 + d" and "r div 64 = r div 4096 * 64 + c"
    and "r div 4096 = a * 64 + b"
    by (simp_all add: a' d12 b_def c_def d_def)
  then have r: "r = a * 262144 + b * 4096 + c * 64 + d"
    by simp
  have b: "0 \<le> b" "b < 64" and c: "0 \<le> c" "c < 64" and d: "0 \<le> d" "d < 64"
    by (simp_all add: b_def c_def d_def)
  have a: "0 \<le> a" "a \<le> 4"
    using assms b c d r by linarith+
  have a0: "a = 0 \<Longrightarrow> 16 \<le> b" and a4: "a = 4 \<Longrightarrow> b < 16"
    using assms b c d r by linarith+
  have u0: "uint b0 = 0xF0 + a" and u1: "uint b1 = 0x80 + b" and u2: "uint b2 = 0x80 + c"
    and u3: "uint b3 = 0x80 + d"
    unfolding b0_def b1_def b2_def b3_def using a b c d by (intro uint_byte; linarith)+
  have m0: "uint b0 mod 8 = a"
    using mod_offset [of 30 8 "uint b0"] a by (simp add: u0)
  have m1: "uint b1 mod 64 = b"
    using mod_offset [of 2 64 "uint b1"] b by (simp add: u1)
  have m2: "uint b2 mod 64 = c"
    using mod_offset [of 2 64 "uint b2"] c by (simp add: u2)
  have m3: "uint b3 mod 64 = d"
    using mod_offset [of 2 64 "uint b3"] d by (simp add: u3)
  have e: "encodeRune r = [b0, b1, b2, b3]"
    using assms
    by (auto simp: encodeRune_def a_def b_def c_def d_def b0_def b1_def b2_def b3_def)
  have "DecodeRuneInString (b0 # b1 # b2 # b3 # rest) =
      (uint b0 mod 8 * 262144 + uint b1 mod 64 * 4096 + uint b2 mod 64 * 64 + uint b3 mod 64, 4)"
    using a b c d a0 a4 by (intro decode4) (auto simp: u0 u1 u2 u3 accept_lo_def accept_hi_def)
  then have "DecodeRuneInString (b0 # b1 # b2 # b3 # rest) = (r, 4)"
    unfolding m0 m1 m2 m3 r .
  then show ?thesis
    by (simp add: e del: DecodeRuneInString.simps)
qed

lemma decode_encoded_invalid:
  assumes "\<not> ValidRune r"
  shows "DecodeRuneInString (encodeRune r @ rest) = (RuneError, 3)"
proof -
  have "encodeRune r = [0xEF, 0xBF, 0xBD]"
    using assms by (auto simp: encodeRune_def ValidRune_def)
  then show ?thesis
    by (simp add: RuneError_def accept_lo_def accept_hi_def)
qed

lemma DecodeRuneInString_encodeRune:
  "DecodeRuneInString (encodeRune r @ rest) = (writtenRune r, length (encodeRune r))"
proof (cases "ValidRune r")
  case False
  then show ?thesis
    using decode_encoded_invalid [OF False, of rest]
    by (auto simp: writtenRune_def encodeRune_def ValidRune_def simp del: DecodeRuneInString.simps)
next
  case True
  consider "r \<le> 0x7F" | "0x7F < r" "r \<le> 0x7FF" | "0x7FF < r" "r \<le> 0xFFFF" | "0xFFFF < r"
    by linarith
  then show ?thesis
  proof cases
    case 1
    then show ?thesis
      using True decode_encoded1 [of r rest]
      by (auto simp: writtenRune_def encodeRune_def ValidRune_def simp del: DecodeRuneInString.simps)
  next
    case 2
    then show ?thesis
      using True decode_encoded2 [of r rest]
      by (auto simp: writtenRune_def encodeRune_def ValidRune_def simp del: DecodeRuneInString.simps)
  next
    case 3
    then show ?thesis
      using True decode_encoded3 [of r rest]
      by (auto simp: writtenRune_def encodeRune_def ValidRune_def simp del: DecodeRuneInString.simps)
  next
    case 4
    then show ?thesis
      using True decode_encoded4 [of r rest]
      by (auto simp: writtenRune_def encodeRune_def ValidRune_def simp del: DecodeRuneInString.simps)
  qed
qed

lemma encodeRune_not_Nil: "encodeRune r \<noteq> []"
  by (simp add: encodeRune_def)

lemma rangeString_encodeRune:
  "rangeString (encodeRune r @ rest) = (writtenRune r, length (encodeRune r)) # rangeString rest"
proof -
  obtain b s where e: "encodeRune r = b # s"
    using encodeRune_not_Nil [of r] by (cases "encodeRune r") auto
  have "DecodeRuneInString (b # s @ rest) = (writtenRune r, length (b # s))"
    using DecodeRuneInString_encodeRune [of r rest] e by simp
  then show ?thesis
    unfolding e by (simp del: DecodeRuneInString.simps)
qed

lemma rangeString_concat_encodeRune:
  "rangeString (concat (map encodeRune rs)) = map (\<lambda>r. (writtenRune r, length (encodeRune r))) rs"
  by (induction rs) (simp_all add: rangeString_encodeRune del: rangeString.simps(2))

section \<open>Properties of the conversion loops\<close>

lemma mapBytesToRunes_loop_eq:
  "mapBytesToRunes_loop cm data (buf, err) =
     (buf @ concat (map (\<lambda>b. encodeRune (case map_of cm b of Some r \<Rightarrow> r | None \<Rightarrow> RuneError)) data),
      if \<exists>b\<in>set data. map_of cm b = None then Some ErrInvalidCodepoint else err)"
  by (induction data arbitrary: buf err) (auto simp: WriteRune_def split: option.splits)

lemma mapRunesToBytes_loop_eq:
  "mapRunesToBytes_loop cm rs (buf, err) =
     (buf @ map (\<lambda>r. case map_of cm r of Some c \<Rightarrow> c | None \<Rightarrow> 0x3F) rs,
      if \<exists>r\<in>set rs. map_of cm r = None then Some ErrInvalidCodepoint else err)"
  by (induction rs arbitrary: buf err) (auto simp: WriteByte_def split: option.splits)

lemma mapBytesToRunes_eq:
  "mapBytesToRunes cm data =
     (concat (map (\<lambda>b. encodeRune (case map_of cm b of Some r \<Rightarrow> r | None \<Rightarrow> RuneError)) data),
      if \<exists>b\<in>set data. map_of cm b = None then Some ErrInvalidCodepoint else None)"
  by (simp add: mapBytesToRunes_def mapBytesToRunes_loop_eq NewBuffer_def Buffer_String_def)

lemma mapRunesToBytes_eq:
  "mapRunesToBytes cm data =
     (map (\<lambda>r. case map_of cm r of Some c \<Rightarrow> c | None \<Rightarrow> 0x3F) (map fst (rangeString data)),
      if \<exists>r\<in>set (map fst (rangeString data)). map_of cm r = None
      then Some ErrInvalidCodepoint else None)"
  by (simp add: mapRunesToBytes_def mapRunesToBytes_loop_eq NewBuffer_def Buffer_String_def)

lemma writtenRune_RuneError: "writtenRune RuneError = RuneError"
  by (simp add: writtenRune_def)

lemma rangeString_mapBytesToRunes:
  "map fst (rangeString (fst (mapBytesToRunes cm data))) =
     map (\<lambda>b. case map_of cm b of Some r \<Rightarrow> writtenRune r | None \<Rightarrow> RuneError) data"
proof -
  define f where "f = (\<lambda>b. case map_of cm b of Some r \<Rightarrow> r | None \<Rightarrow> RuneError)"
  have "fst (mapBytesToRunes cm data) = concat (map encodeRune (map f data))"
    by (simp add: mapBytesToRunes_eq comp_def f_def)
  then have "map fst (rangeString (fst (mapBytesToRunes cm data))) = map writtenRune (map f data)"
    by (simp only: rangeString_concat_encodeRune) (simp add: comp_def)
  also have "\<dots> = map (\<lambda>b. case map_of cm b of Some r \<Rightarrow> writtenRune r | None \<Rightarrow> RuneError) data"
    by (simp add: f_def writtenRune_RuneError split: option.split)
  finally show ?thesis .
qed


section \<open>Properties of the derived encode table\<close>

lemma reverseByteRuneMap_loop_lookup:
  "map_of (reverseByteRuneMap_loop m newmap) r =
     (if filter (\<lambda>kv. snd kv = r) m = [] then map_of newmap r
      else Some (fst (last (filter (\<lambda>kv. snd kv = r) m))))"
proof (induction m arbitrary: newmap)
  case Nil
  then show ?case by simp
next
  case (Cons p m)
  obtain k v where p: "p = (k, v)"
    by (cases p)
  show ?case
    unfolding p by (simp add: Cons.IH update_conv')
qed

lemma reverseByteRuneMap_lookup:
  "map_of (reverseByteRuneMap m) r =
     (if filter (\<lambda>kv. snd kv = r) m = [] then None
      else Some (fst (last (filter (\<lambda>kv. snd kv = r) m))))"
  by (simp add: reverseByteRuneMap_def reverseByteRuneMap_loop_lookup)

lemma reverseByteRuneMap_Some_mem:
  assumes "map_of (reverseByteRuneMap m) r = Some b"
  shows "(b, r) \<in> set m"
proof -
  define kvs where "kvs = filter (\<lambda>kv. snd kv = r) m"
  have ne: "kvs \<noteq> []" and b: "b = fst (last kvs)"
    using assms by (auto simp: reverseByteRuneMap_lookup kvs_def split: if_splits)
  have "last kvs \<in> set kvs"
    using ne by (rule last_in_set)
  then have "last kvs \<in> set m" "snd (last kvs) = r"
    by (simp_all add: kvs_def)
  then show ?thesis
    using b by (cases "last kvs") auto
qed

lemma reverseByteRuneMap_dom: "dom (map_of (reverseByteRuneMap m)) = snd ` set m"
proof -
  have "map_of (reverseByteRuneMap m) r \<noteq> None \<longleftrightarrow> r \<in> snd ` set m" for r
  proof -
    have "filter (\<lambda>kv. snd kv = r) m = [] \<longleftrightarrow> r \<notin> snd ` set m"
      by (auto simp: filter_empty_conv)
    then show ?thesis
      by (simp add: reverseByteRuneMap_lookup)
  qed
  then show ?thesis
    by (auto simp: dom_def)
qed

lemma reverseByteRuneMap_None:
  assumes "list_all (\<lambda>kv. snd kv \<noteq> r) m"
  shows "map_of (reverseByteRuneMap m) r = None"
proof -
  have "filter (\<lambda>kv. snd kv = r) m = []"
    using assms by (auto simp: filter_empty_conv list_all_iff)
  then show ?thesis
    by (simp add: reverseByteRuneMap_lookup)
qed

lemma reverseByteRuneMap_last:
  assumes "m = xs @ (b, c) # ys" "c \<notin> snd ` set ys"
  shows "map_of (reverseByteRuneMap m) c = Some b"
proof -
  have "filter (\<lambda>kv. snd kv = c) ys = []"
    using assms(2) by (auto simp: filter_empty_conv)
  then have "filter (\<lambda>kv. snd kv = c) m = filter (\<lambda>kv. snd kv = c) xs @ [(b, c)]"
    by (simp add: assms(1))
  then show ?thesis
    by (simp add: reverseByteRuneMap_lookup)
qed

lemma reverseByteRuneMap_Some:
  assumes "distinct (map snd m)" "(b, r) \<in> set m"
  shows "map_of (reverseByteRuneMap m) r = Some b"
proof -
  obtain xs ys where m: "m = xs @ (b, r) # ys"
    using assms(2) by (auto simp: in_set_conv_decomp)
  have "r \<notin> snd ` set ys"
    using assms(1) unfolding m by auto
  then show ?thesis
    using m by (rule reverseByteRuneMap_last [rotated])
qed

section \<open>Properties of the registry\<close>

lemma codecsMap_charmap_registry:
  "codecsMap charmap_registry =
     [(str ''ISO-8859-14'', newCodec charmapDecode_ISO_8859_14),
      (str ''ISO-8859-2'', newCodec charmapDecode_ISO_8859_2)]"
  by (simp add: charmap_registry_def init_ISO_8859_2_def init_ISO_8859_14_def register_def
      empty_registry_def str_def)

lemma aliasesMap_charmap_registry:
  "aliasesMap charmap_registry =
     [(str ''8859-14'', str ''ISO-8859-14''), (str ''ISO8859-14'', str ''ISO-8859-14''),
      (str ''8859-2'', str ''ISO-8859-2''), (str ''ISO8859-2'', str ''ISO-8859-2'')]"
  by (simp add: charmap_registry_def init_ISO_8859_2_def init_ISO_8859_14_def register_def
      empty_registry_def str_def)

lemma resolve_not_a_real_encoding:
  "getCodecForEncoding upper charmap_registry (str ''NOT-A-REAL-ENCODING'') = str ''NOT-A-REAL-ENCODING''"
  by (simp add: getCodecForEncoding_def aliasesMap_charmap_registry ToUpper_def
      Replace_underscore_def str_def)

section \<open>Unknown encodings\<close>

text \<open>
  Claim C2. Whatever the registry holds, the input and the label: when no codec is
  registered under the resolved label (the label in upper case, every \<^verbatim>\<open>_\<close> replaced
  by \<^verbatim>\<open>-\<close>, an alias replaced by its canonical name), each of \<open>Encode\<close>, \<open>Decode\<close>,
  \<open>EncodeToBuffer\<close> and \<open>DecodeToBuffer\<close> returns the input itself, byte for byte, with
  \<open>ErrUnknownEncoding\<close>.
\<close>

theorem unknown_encoding_returns_input:
  assumes "map_of (codecsMap reg) (getCodecForEncoding upper reg encoding) = None"
  shows "Encode upper reg data encoding = (data, Some ErrUnknownEncoding)
    \<and> Decode upper reg data encoding = (data, Some ErrUnknownEncoding)
    \<and> EncodeToBuffer upper reg data encoding = (data, Some ErrUnknownEncoding)
    \<and> DecodeToBuffer upper reg data encoding = (data, Some ErrUnknownEncoding)"
  using assms by (simp add: Encode_def Decode_def EncodeToBuffer_def DecodeToBuffer_def NewBuffer_def)

theorem unknown_encoding_returns_input_witness:
  "map_of (codecsMap charmap_registry)
     (getCodecForEncoding (\<lambda>r. r) charmap_registry (str ''NOT-A-REAL-ENCODING'')) = None
   \<and> Encode (\<lambda>r. r) charmap_registry [0x68, 0x69] (str ''NOT-A-REAL-ENCODING'') =
       ([0x68, 0x69], Some ErrUnknownEncoding)
   \<and> Decode (\<lambda>r. r) charmap_registry [0x68, 0x69] (str ''NOT-A-REAL-ENCODING'') =
       ([0x68, 0x69], Some ErrUnknownEncoding)
   \<and> EncodeToBuffer (\<lambda>r. r) charmap_registry [0x68, 0x69] (str ''NOT-A-REAL-ENCODING'') =
       ([0x68, 0x69], Some ErrUnknownEncoding)
   \<and> DecodeToBuffer (\<lambda>r. r) charmap_registry [0x68, 0x69] (str ''NOT-A-REAL-ENCODING'') =
       ([0x68, 0x69], Some ErrUnknownEncoding)"
proof -
  have h: "map_of (codecsMap charmap_registry)
     (getCodecForEncoding (\<lambda>r. r) charmap_registry (str ''NOT-A-REAL-ENCODING'')) = None"
    unfolding resolve_not_a_real_encoding codecsMap_charmap_registry by (simp add: str_def)
  show ?thesis
    using h unknown_encoding_returns_input [OF h, of "[0x68, 0x69]"] by simp
qed

section \<open>Substitution in the table codec\<close>

text \<open>
  Claim C3. For every codec (a registered one in particular) and every input, \<open>Decode\<close>
  visits the bytes of the input in order and to the end. The text it returns is the
  concatenation, byte after byte, of what \<open>WriteRune\<close> writes for the rune that the
  decode table gives for that byte, or for \<open>RuneError\<close> when the table has no entry.
  Read back rune by rune, the text is one rune for each input byte: the table's rune
  (\<open>RuneError\<close> if the table holds a value that is no valid rune), or \<open>RuneError\<close> for an
  unmapped byte. The error is \<open>ErrInvalidCodepoint\<close> exactly when some byte of the input
  has no entry, and \<^verbatim>\<open>nil\<close> otherwise.
\<close>

theorem Decode_substitutes_and_continues:
  "fst (codec_Decode c data) =
     concat (map (\<lambda>b. encodeRune (case map_of (DecodeMap c) b of Some r \<Rightarrow> r | None \<Rightarrow> RuneError)) data)
   \<and> map fst (rangeString (fst (codec_Decode c data))) =
     map (\<lambda>b. case map_of (DecodeMap c) b of Some r \<Rightarrow> writtenRune r | None \<Rightarrow> RuneError) data
   \<and> snd (codec_Decode c data) =
     (if \<exists>b\<in>set data. map_of (DecodeMap c) b = None then Some ErrInvalidCodepoint else None)"
proof (intro conjI)
  show "fst (codec_Decode c data) =
     concat (map (\<lambda>b. encodeRune (case map_of (DecodeMap c) b of Some r \<Rightarrow> r | None \<Rightarrow> RuneError)) data)"
    by (simp add: codec_Decode_def mapBytesToRunes_eq)
  show "map fst (rangeString (fst (codec_Decode c data))) =
     map (\<lambda>b. case map_of (DecodeMap c) b of Some r \<Rightarrow> writtenRune r | None \<Rightarrow> RuneError) data"
    unfolding codec_Decode_def by (rule rangeString_mapBytesToRunes)
  show "snd (codec_Decode c data) =
     (if \<exists>b\<in>set data. map_of (DecodeMap c) b = None then Some ErrInvalidCodepoint else None)"
    by (simp add: codec_Decode_def mapBytesToRunes_eq)
qed




section \<open>The derived encode table\<close>

text \<open>
  Claim C9. For every decode table (a Go map: no key twice), in whatever order the
  \<^verbatim>\<open>range\<close> loop of \<open>reverseByteRuneMap\<close> visits it: the derived table maps a codepoint
  \<open>c\<close> to a byte \<open>b\<close> only if the decode table maps \<open>b\<close> to \<open>c\<close>; its keys are
  exactly the codepoints in the range of the decode table; and the entry that survives
  for a codepoint is the one the loop wrote last, so of two bytes that decode to the
  same codepoint only the one visited later can remain.
\<close>

theorem reverseByteRuneMap_inverts_decode_table:
  assumes "distinct (map fst m)"
  shows "(\<forall>c b. map_of (reverseByteRuneMap m) c = Some b \<longrightarrow> map_of m b = Some c)
    \<and> dom (map_of (reverseByteRuneMap m)) = ran (map_of m)
    \<and> (\<forall>xs b c ys. m = xs @ (b, c) # ys \<and> c \<notin> snd ` set ys \<longrightarrow>
          map_of (reverseByteRuneMap m) c = Some b)"
proof (intro conjI allI impI)
  fix c b
  assume "map_of (reverseByteRuneMap m) c = Some b"
  then have "(b, c) \<in> set m"
    by (rule reverseByteRuneMap_Some_mem)
  then show "map_of m b = Some c"
    using assms by simp
next
  show "dom (map_of (reverseByteRuneMap m)) = ran (map_of m)"
    using assms by (simp add: reverseByteRuneMap_dom ran_distinct)
next
  fix xs b c ys
  assume "m = xs @ (b, c) # ys \<and> c \<notin> snd ` set ys"
  then show "map_of (reverseByteRuneMap m) c = Some b"
    using reverseByteRuneMap_last by blast
qed

theorem reverseByteRuneMap_inverts_decode_table_witness:
  "distinct (map fst [(0x41 :: byte, 0x100 :: rune), (0x42, 0x100), (0x43, 0x101)])
   \<and> map_of (reverseByteRuneMap [(0x41, 0x100), (0x42, 0x100), (0x43, 0x101)]) 0x100 = Some 0x42
   \<and> map_of [(0x41 :: byte, 0x100 :: rune), (0x42, 0x100), (0x43, 0x101)] 0x42 = Some 0x100
   \<and> dom (map_of (reverseByteRuneMap [(0x41, 0x100), (0x42, 0x100), (0x43, 0x101)])) = {0x100, 0x101}
   \<and> ran (map_of [(0x41 :: byte, 0x100 :: rune), (0x42, 0x100), (0x43, 0x101)]) = {0x100, 0x101}"
proof -
  have h: "distinct (map fst [(0x41 :: byte, 0x100 :: rune), (0x42, 0x100), (0x43, 0x101)])"
    by simp
  have l: "map_of (reverseByteRuneMap [(0x41, 0x100), (0x42, 0x100), (0x43, 0x101)]) 0x100 = Some 0x42"
    using reverseByteRuneMap_inverts_decode_table [OF h] by (simp add: reverseByteRuneMap_def)
  show ?thesis
    using h l reverseByteRuneMap_inverts_decode_table [OF h]
    by (auto simp: ran_distinct)
qed

section \<open>Properties of the shipped tables\<close>

text \<open>
  The keys of a table are in increasing order, hence distinct; no table gives one
  codepoint to two bytes; no table holds \<open>RuneError\<close>.
\<close>

lemma sorted_wrt_less_byte:
  "sorted_wrt (<) (x # y # zs) = ((x::byte) < y \<and> sorted_wrt (<) (y # zs))"
  by (rule sorted_wrt2) simp

lemma keys_ISO_8859_2: "distinct (map fst charmapDecode_ISO_8859_2)"
proof -
  have "sorted_wrt (<) (map fst charmapDecode_ISO_8859_2)"
    unfolding charmapDecode_ISO_8859_2_def list.map fst_conv
    by (simp only: sorted_wrt_less_byte sorted_wrt1) simp
  then show ?thesis
    by (simp add: strict_sorted_iff)
qed

lemma keys_ISO_8859_14: "distinct (map fst charmapDecode_ISO_8859_14)"
proof -
  have "sorted_wrt (<) (map fst charmapDecode_ISO_8859_14)"
    unfolding charmapDecode_ISO_8859_14_def list.map fst_conv
    by (simp only: sorted_wrt_less_byte sorted_wrt1) simp
  then show ?thesis
    by (simp add: strict_sorted_iff)
qed

lemma values_ISO_8859_2: "distinct (map snd charmapDecode_ISO_8859_2)"
  by (simp add: charmapDecode_ISO_8859_2_def)

lemma values_ISO_8859_14: "distinct (map snd charmapDecode_ISO_8859_14)"
  by (simp add: charmapDecode_ISO_8859_14_def)

lemma no_RuneError_ISO_8859_2: "list_all (\<lambda>kv. snd kv \<noteq> RuneError) charmapDecode_ISO_8859_2"
  by (simp add: charmapDecode_ISO_8859_2_def RuneError_def)

lemma no_RuneError_ISO_8859_14: "list_all (\<lambda>kv. snd kv \<noteq> RuneError) charmapDecode_ISO_8859_14"
  by (simp add: charmapDecode_ISO_8859_14_def RuneError_def)

text \<open>
  No shipped table gives one codepoint to two bytes, so the derived encode table does
  not depend on the order in which the \<^verbatim>\<open>range\<close> loop visits the decode table.
\<close>

lemma reverseByteRuneMap_None_iff:
  "map_of (reverseByteRuneMap m) r = None \<longleftrightarrow> r \<notin> snd ` set m"
  using reverseByteRuneMap_dom [of m] by (metis domIff)

lemma reverseByteRuneMap_order_irrelevant:
  assumes "distinct (map snd m)" "set m' = set m"
  shows "map_of (reverseByteRuneMap m') = map_of (reverseByteRuneMap m)"
proof
  fix r
  show "map_of (reverseByteRuneMap m') r = map_of (reverseByteRuneMap m) r"
  proof (cases "map_of (reverseByteRuneMap m') r")
    case None
    then have "r \<notin> snd ` set m"
      using assms(2) by (simp add: reverseByteRuneMap_None_iff)
    then have "map_of (reverseByteRuneMap m) r = None"
      by (simp add: reverseByteRuneMap_None_iff)
    then show ?thesis using None by simp
  next
    case (Some b)
    then have "(b, r) \<in> set m"
      using reverseByteRuneMap_Some_mem assms(2) by blast
    then have "map_of (reverseByteRuneMap m) r = Some b"
      using assms(1) by (rule reverseByteRuneMap_Some [rotated])
    then show ?thesis using Some by simp
  qed
qed

lemma registered_codecs:
  assumes "map_of (codecsMap charmap_registry) name = Some c"
  shows "c = newCodec charmapDecode_ISO_8859_2 \<or> c = newCodec charmapDecode_ISO_8859_14"
  using assms unfolding codecsMap_charmap_registry by (auto split: if_splits)

lemma resolve_ISO_8859_2:
  "getCodecForEncoding upper charmap_registry (str ''ISO-8859-2'') = str ''ISO-8859-2''"
  "getCodecForEncoding upper charmap_registry (str ''8859-2'') = str ''ISO-8859-2''"
  "getCodecForEncoding upper charmap_registry (str ''iso_8859_2'') = str ''ISO-8859-2''"
  by (simp_all add: getCodecForEncoding_def aliasesMap_charmap_registry ToUpper_def
      Replace_underscore_def str_def)

lemma resolve_ISO_8859_14:
  "getCodecForEncoding upper charmap_registry (str ''ISO-8859-14'') = str ''ISO-8859-14''"
  by (simp add: getCodecForEncoding_def aliasesMap_charmap_registry ToUpper_def
      Replace_underscore_def str_def)

lemma lookup_ISO_8859_2:
  "map_of (codecsMap charmap_registry) (str ''ISO-8859-2'') = Some (newCodec charmapDecode_ISO_8859_2)"
  unfolding codecsMap_charmap_registry by (simp add: str_def)

lemma lookup_ISO_8859_14:
  "map_of (codecsMap charmap_registry) (str ''ISO-8859-14'') = Some (newCodec charmapDecode_ISO_8859_14)"
  unfolding codecsMap_charmap_registry by (simp add: str_def)

lemma EncodeMap_newCodec_Some:
  "distinct (map snd m) \<Longrightarrow> (b, r) \<in> set m \<Longrightarrow> map_of (EncodeMap (newCodec m)) r = Some b"
  by (simp add: newCodec_def reverseByteRuneMap_Some)

lemma EncodeMap_newCodec_None:
  "list_all (\<lambda>kv. snd kv \<noteq> r) m \<Longrightarrow> map_of (EncodeMap (newCodec m)) r = None"
  by (simp add: newCodec_def reverseByteRuneMap_None)

lemma DecodeMap_newCodec_Some:
  "distinct (map fst m) \<Longrightarrow> (b, r) \<in> set m \<Longrightarrow> map_of (DecodeMap (newCodec m)) b = Some r"
  by (simp add: newCodec_def)

lemma codec_Encode_not_unknown: "snd (codec_Encode c data) \<noteq> Some ErrUnknownEncoding"
  by (simp add: codec_Encode_def mapRunesToBytes_eq)

lemma codec_Decode_not_unknown: "snd (codec_Decode c data) \<noteq> Some ErrUnknownEncoding"
  by (simp add: codec_Decode_def mapBytesToRunes_eq)

lemma List_charmap_registry: "List charmap_registry = [str ''ISO-8859-14'', str ''ISO-8859-2'']"
  by (simp add: List_def codecsMap_charmap_registry)


lemma valid_runes_ISO_8859_2: "list_all (\<lambda>kv. ValidRune (snd kv)) charmapDecode_ISO_8859_2"
  by (simp add: charmapDecode_ISO_8859_2_def ValidRune_def)

lemma valid_runes_ISO_8859_14: "list_all (\<lambda>kv. ValidRune (snd kv)) charmapDecode_ISO_8859_14"
  by (simp add: charmapDecode_ISO_8859_14_def ValidRune_def)

text \<open>
  Every rune of a registered decode table is a valid rune: \<open>WriteRune\<close> writes it as it
  is.
\<close>

lemma registered_runes_written:
  assumes "map_of (codecsMap charmap_registry) name = Some c"
    and "map_of (DecodeMap c) b = Some r"
  shows "writtenRune r = r"
proof -
  have "(b, r) \<in> set (DecodeMap c)"
    using assms(2) by (rule map_of_SomeD)
  moreover have "list_all (\<lambda>kv. ValidRune (snd kv)) (DecodeMap c)"
    using registered_codecs [OF assms(1)] valid_runes_ISO_8859_2 valid_runes_ISO_8859_14
    by (auto simp: newCodec_def)
  ultimately have "ValidRune r"
    by (auto simp: list_all_iff)
  then show ?thesis
    by (simp add: writtenRune_def)
qed


section \<open>Round trip\<close>

lemma roundtrip_newCodec:
  assumes dk: "distinct (map fst m)"
    and ne: "list_all (\<lambda>kv. snd kv \<noteq> RuneError) m"
    and dom: "\<forall>r\<in>set (map fst (rangeString text)). r \<in> dom (map_of (EncodeMap (newCodec m)))"
  shows "snd (codec_Encode (newCodec m) text) = None"
    and "codec_Decode (newCodec m) (fst (codec_Encode (newCodec m) text)) = (text, None)"
proof -
  define enc where "enc = map_of (reverseByteRuneMap m)"
  define runes where "runes = map fst (rangeString text)"
  define e where "e = map (\<lambda>r. case enc r of Some b \<Rightarrow> b | None \<Rightarrow> 0x3F) runes"
  have mapped: "\<exists>b. enc r = Some b \<and> map_of m b = Some r \<and> r \<noteq> RuneError"
    if r: "r \<in> set runes" for r
  proof -
    have "r \<in> dom enc"
      using dom r by (auto simp: newCodec_def runes_def enc_def)
    then obtain b where b: "enc r = Some b"
      by blast
    then have mem: "(b, r) \<in> set m"
      unfolding enc_def by (rule reverseByteRuneMap_Some_mem)
    then have "map_of m b = Some r"
      using dk by simp
    moreover have "r \<noteq> RuneError"
      using ne mem by (auto simp: list_all_iff)
    ultimately show ?thesis
      using b by simp
  qed
  have enc_eq: "codec_Encode (newCodec m) text =
      (e, if \<exists>r\<in>set runes. enc r = None then Some ErrInvalidCodepoint else None)"
    by (simp add: codec_Encode_def newCodec_def mapRunesToBytes_eq e_def runes_def enc_def)
  have no_none: "\<not> (\<exists>r\<in>set runes. enc r = None)"
    using mapped by force
  show "snd (codec_Encode (newCodec m) text) = None"
    using no_none by (simp add: enc_eq)
  have valid: "(RuneError, 1) \<notin> set (rangeString text)"
  proof
    assume "(RuneError, 1) \<in> set (rangeString text)"
    then have "RuneError \<in> set runes"
      unfolding runes_def by force
    then show False
      using mapped by blast
  qed
  have "map (\<lambda>b. encodeRune (case map_of m b of Some r \<Rightarrow> r | None \<Rightarrow> RuneError)) e =
      map encodeRune runes"
    unfolding e_def map_map
  proof (rule map_cong [OF refl])
    fix r
    assume "r \<in> set runes"
    then obtain b where "enc r = Some b" "map_of m b = Some r"
      using mapped by blast
    then show "((\<lambda>b. encodeRune (case map_of m b of Some r \<Rightarrow> r | None \<Rightarrow> RuneError)) \<circ>
        (\<lambda>r. case enc r of Some b \<Rightarrow> b | None \<Rightarrow> 0x3F)) r = encodeRune r"
      by simp
  qed
  then have "concat (map (\<lambda>b. encodeRune (case map_of m b of Some r \<Rightarrow> r | None \<Rightarrow> RuneError)) e) =
      concat (map (\<lambda>(r, w). encodeRune r) (rangeString text))"
    by (simp add: runes_def comp_def case_prod_unfold)
  also have "\<dots> = text"
    using valid by (rule rangeString_reencode)
  finally have out: "concat (map (\<lambda>b. encodeRune (case map_of m b of Some r \<Rightarrow> r | None \<Rightarrow> RuneError)) e) = text" .
  have all_mapped: "\<not> (\<exists>b\<in>set e. map_of m b = None)"
  proof
    assume "\<exists>b\<in>set e. map_of m b = None"
    then obtain r where "r \<in> set runes" "map_of m (case enc r of Some b \<Rightarrow> b | None \<Rightarrow> 0x3F) = None"
      unfolding e_def by auto
    then show False
      using mapped [of r] by auto
  qed
  have fe: "fst (codec_Encode (newCodec m) text) = e"
    by (simp add: enc_eq)
  show "codec_Decode (newCodec m) (fst (codec_Encode (newCodec m) text)) = (text, None)"
    unfolding fe using out all_mapped
    by (simp add: codec_Decode_def newCodec_def mapBytesToRunes_eq)
qed

text \<open>
  Claim C1. For every label that resolves to a registered codec and every text whose
  runes (as the \<^verbatim>\<open>range\<close> loop of \<open>Encode\<close> reads them) all have an entry in that
  codec's derived encode table: \<open>Encode\<close> returns no error, and \<open>Decode\<close> of the
  encoded bytes returns the original text and no error.
\<close>

theorem round_trip_on_mappable_text:
  assumes "map_of (codecsMap charmap_registry)
      (getCodecForEncoding upper charmap_registry encoding) = Some c"
    and "\<forall>r\<in>set (map fst (rangeString text)). r \<in> dom (map_of (EncodeMap c))"
  shows "snd (Encode upper charmap_registry text encoding) = None
    \<and> Decode upper charmap_registry (fst (Encode upper charmap_registry text encoding)) encoding =
        (text, None)"
proof -
  have e: "Encode upper charmap_registry text encoding = codec_Encode c text"
    and d: "Decode upper charmap_registry s encoding = codec_Decode c s" for s
    using assms(1) by (simp_all add: Encode_def Decode_def)
  consider "c = newCodec charmapDecode_ISO_8859_2" | "c = newCodec charmapDecode_ISO_8859_14"
    using registered_codecs [OF assms(1)] by blast
  then show ?thesis
  proof cases
    case 1
    show ?thesis
      unfolding e d 1
      using roundtrip_newCodec [OF keys_ISO_8859_2 no_RuneError_ISO_8859_2] assms(2) 1 by blast
  next
    case 2
    show ?thesis
      unfolding e d 2
      using roundtrip_newCodec [OF keys_ISO_8859_14 no_RuneError_ISO_8859_14] assms(2) 2 by blast
  qed
qed

theorem round_trip_on_mappable_text_witness:
  "map_of (codecsMap charmap_registry)
     (getCodecForEncoding (\<lambda>r. r) charmap_registry (str ''iso_8859_2'')) =
     Some (newCodec charmapDecode_ISO_8859_2)
   \<and> map fst (rangeString [0x41, 0xC5, 0xA1]) = [0x41, 0x161]
   \<and> map_of (EncodeMap (newCodec charmapDecode_ISO_8859_2)) 0x41 = Some 0x41
   \<and> map_of (EncodeMap (newCodec charmapDecode_ISO_8859_2)) 0x161 = Some 0xB9
   \<and> Encode (\<lambda>r. r) charmap_registry [0x41, 0xC5, 0xA1] (str ''iso_8859_2'') = ([0x41, 0xB9], None)
   \<and> Decode (\<lambda>r. r) charmap_registry [0x41, 0xB9] (str ''iso_8859_2'') = ([0x41, 0xC5, 0xA1], None)"
proof -
  have h1: "map_of (codecsMap charmap_registry)
     (getCodecForEncoding (\<lambda>r. r) charmap_registry (str ''iso_8859_2'')) =
     Some (newCodec charmapDecode_ISO_8859_2)"
    by (simp only: resolve_ISO_8859_2 lookup_ISO_8859_2)
  have rs: "map fst (rangeString [0x41, 0xC5, 0xA1]) = [0x41, 0x161]"
    by (simp add: Let_def accept_lo_def accept_hi_def)
  have e1: "map_of (EncodeMap (newCodec charmapDecode_ISO_8859_2)) 0x41 = Some 0x41"
    by (rule EncodeMap_newCodec_Some [OF values_ISO_8859_2])
      (simp add: charmapDecode_ISO_8859_2_def)
  have e2: "map_of (EncodeMap (newCodec charmapDecode_ISO_8859_2)) 0x161 = Some 0xB9"
    by (rule EncodeMap_newCodec_Some [OF values_ISO_8859_2])
      (simp add: charmapDecode_ISO_8859_2_def)
  have h2: "\<forall>r\<in>set (map fst (rangeString [0x41, 0xC5, 0xA1])).
      r \<in> dom (map_of (EncodeMap (newCodec charmapDecode_ISO_8859_2)))"
    unfolding rs using e1 e2 by auto
  have enc: "Encode (\<lambda>r. r) charmap_registry [0x41, 0xC5, 0xA1] (str ''iso_8859_2'') =
      ([0x41, 0xB9], None)"
    unfolding Encode_def h1 option.case codec_Encode_def mapRunesToBytes_eq rs
    by (simp add: e1 e2)
  show ?thesis
    using h1 rs e1 e2 enc round_trip_on_mappable_text [OF h1 h2]
    by simp
qed

section \<open>Name resolution\<close>

text \<open>
  Claim C6. For every input, \<open>Decode\<close> under the labels \<^verbatim>\<open>8859-2\<close>,
  \<^verbatim>\<open>ISO-8859-2\<close> and \<^verbatim>\<open>iso_8859_2\<close> returns the same result, output and error: it
  is the result of the ISO-8859-2 codec, since each of the three labels resolves to the
  canonical name \<^verbatim>\<open>ISO-8859-2\<close> (upper case, \<^verbatim>\<open>_\<close> replaced by \<^verbatim>\<open>-\<close>, alias replaced
  by its name).
\<close>

theorem alias_equivalence:
  "Decode upper charmap_registry data (str ''8859-2'') =
     Decode upper charmap_registry data (str ''ISO-8859-2'')
   \<and> Decode upper charmap_registry data (str ''iso_8859_2'') =
     Decode upper charmap_registry data (str ''ISO-8859-2'')
   \<and> Decode upper charmap_registry data (str ''ISO-8859-2'') =
     codec_Decode (newCodec charmapDecode_ISO_8859_2) data
   \<and> getCodecForEncoding upper charmap_registry (str ''8859-2'') = str ''ISO-8859-2''
   \<and> getCodecForEncoding upper charmap_registry (str ''iso_8859_2'') = str ''ISO-8859-2''
   \<and> getCodecForEncoding upper charmap_registry (str ''ISO-8859-2'') = str ''ISO-8859-2''"
proof -
  have "Decode upper charmap_registry data l = codec_Decode (newCodec charmapDecode_ISO_8859_2) data"
    if "getCodecForEncoding upper charmap_registry l = str ''ISO-8859-2''" for l
    unfolding Decode_def that lookup_ISO_8859_2 by simp
  then show ?thesis
    by (simp only: resolve_ISO_8859_2)
qed

text \<open>
  Claim C8. Every name that \<open>List\<close> returns is the key of a codec, and \<open>Encode\<close> and
  \<open>Decode\<close> called with that name as the label run that codec: neither returns
  \<open>ErrUnknownEncoding\<close>, for any input.
\<close>

theorem listed_names_resolve:
  "\<forall>name\<in>set (List charmap_registry).
     \<exists>c. map_of (codecsMap charmap_registry) name = Some c
       \<and> Encode upper charmap_registry data name = codec_Encode c data
       \<and> Decode upper charmap_registry data name = codec_Decode c data
       \<and> snd (Encode upper charmap_registry data name) \<noteq> Some ErrUnknownEncoding
       \<and> snd (Decode upper charmap_registry data name) \<noteq> Some ErrUnknownEncoding"
proof
  fix name
  assume "name \<in> set (List charmap_registry)"
  then consider "name = str ''ISO-8859-14''" | "name = str ''ISO-8859-2''"
    unfolding List_charmap_registry by auto
  then show "\<exists>c. map_of (codecsMap charmap_registry) name = Some c
       \<and> Encode upper charmap_registry data name = codec_Encode c data
       \<and> Decode upper charmap_registry data name = codec_Decode c data
       \<and> snd (Encode upper charmap_registry data name) \<noteq> Some ErrUnknownEncoding
       \<and> snd (Decode upper charmap_registry data name) \<noteq> Some ErrUnknownEncoding"
  proof cases
    case 1
    show ?thesis
      unfolding 1 Encode_def Decode_def resolve_ISO_8859_14 lookup_ISO_8859_14
      by (simp add: codec_Encode_not_unknown codec_Decode_not_unknown)
  next
    case 2
    show ?thesis
      unfolding 2 Encode_def Decode_def resolve_ISO_8859_2 lookup_ISO_8859_2
      by (simp add: codec_Encode_not_unknown codec_Decode_not_unknown)
  qed
qed

theorem listed_names_resolve_witness:
  "str ''ISO-8859-14'' \<in> set (List charmap_registry)
   \<and> Decode (\<lambda>r. r) charmap_registry [0xA1] (str ''ISO-8859-14'') = ([0xE1, 0xB8, 0x82], None)
   \<and> snd (Encode (\<lambda>r. r) charmap_registry [0xA1] (str ''ISO-8859-14'')) \<noteq> Some ErrUnknownEncoding"
proof -
  have m: "str ''ISO-8859-14'' \<in> set (List charmap_registry)"
    unfolding List_charmap_registry by simp
  have d: "map_of (DecodeMap (newCodec charmapDecode_ISO_8859_14)) 0xA1 = Some 0x1E02"
    by (rule DecodeMap_newCodec_Some [OF keys_ISO_8859_14])
      (simp add: charmapDecode_ISO_8859_14_def)
  have v: "codec_Decode (newCodec charmapDecode_ISO_8859_14) [0xA1] = ([0xE1, 0xB8, 0x82], None)"
    unfolding codec_Decode_def mapBytesToRunes_eq by (simp add: d encodeRune_def)
  show ?thesis
    using m v lookup_ISO_8859_14 listed_names_resolve [of "\<lambda>r. r" "[0xA1]"]
    by auto
qed

section \<open>The buffer variants\<close>

text \<open>
  \<open>DecodeToBuffer\<close> runs the loop of \<open>Decode\<close> and returns what \<open>Decode\<close> returns.
  \<open>EncodeToBuffer\<close> reads the encode table at the value of each input byte.
\<close>

lemma mapRunesToBytesBuffer_eq:
  "mapRunesToBytesBuffer cm data =
     (map (\<lambda>b. case map_of cm (uint b) of Some c \<Rightarrow> c | None \<Rightarrow> 0x3F) data,
      if \<exists>b\<in>set data. map_of cm (uint b) = None then Some ErrInvalidCodepoint else None)"
  by (simp add: mapRunesToBytesBuffer_def mapRunesToBytes_loop_eq NewBuffer_def comp_def)

lemma DecodeToBuffer_eq_Decode:
  "DecodeToBuffer upper reg data encoding = Decode upper reg data encoding"
  by (simp add: DecodeToBuffer_def Decode_def codec_DecodeToBuffer_def codec_Decode_def
      mapBytesToRunesBuffer_def mapBytesToRunes_def NewBuffer_def Buffer_String_def
      split: option.split prod.split)

text \<open>
  Claim C7, which the code contradicts. The bytes C5 A1 are the UTF-8 encoding of
  U+0161, which ISO-8859-2 has at byte B9. \<open>Encode\<close> under \<^verbatim>\<open>ISO-8859-2\<close> returns
  the byte B9 and no error. \<open>EncodeToBuffer\<close> on the same bytes and label looks up
  U+00C5 and U+00A1, finds neither in the table, and returns \<^verbatim>\<open>??\<close> with
  \<open>ErrInvalidCodepoint\<close>: the contents differ and the error differs.
\<close>

theorem EncodeToBuffer_differs_from_Encode:
  "Encode upper charmap_registry [0xC5, 0xA1] (str ''ISO-8859-2'') = ([0xB9], None)
   \<and> EncodeToBuffer upper charmap_registry [0xC5, 0xA1] (str ''ISO-8859-2'') =
       ([0x3F, 0x3F], Some ErrInvalidCodepoint)"
proof -
  have rs: "map fst (rangeString [0xC5, 0xA1]) = [0x161]"
    by (simp add: Let_def accept_lo_def accept_hi_def)
  have e: "map_of (EncodeMap (newCodec charmapDecode_ISO_8859_2)) 0x161 = Some 0xB9"
    by (rule EncodeMap_newCodec_Some [OF values_ISO_8859_2])
      (simp add: charmapDecode_ISO_8859_2_def)
  have n1: "map_of (EncodeMap (newCodec charmapDecode_ISO_8859_2)) 0xC5 = None"
    by (rule EncodeMap_newCodec_None) (simp add: charmapDecode_ISO_8859_2_def)
  have n2: "map_of (EncodeMap (newCodec charmapDecode_ISO_8859_2)) 0xA1 = None"
    by (rule EncodeMap_newCodec_None) (simp add: charmapDecode_ISO_8859_2_def)
  have "Encode upper charmap_registry [0xC5, 0xA1] (str ''ISO-8859-2'') = ([0xB9], None)"
    unfolding Encode_def resolve_ISO_8859_2 lookup_ISO_8859_2 option.case codec_Encode_def
      mapRunesToBytes_eq rs
    by (simp add: e)
  moreover have "EncodeToBuffer upper charmap_registry [0xC5, 0xA1] (str ''ISO-8859-2'') =
      ([0x3F, 0x3F], Some ErrInvalidCodepoint)"
    unfolding EncodeToBuffer_def resolve_ISO_8859_2 lookup_ISO_8859_2 option.case
      codec_EncodeToBuffer_def mapRunesToBytesBuffer_eq
    by (simp add: n1 n2)
  ultimately show ?thesis
    by simp
qed

section \<open>Strings that are not valid UTF-8\<close>



end
